(* ===== verification/Prelude.thy ===== *)
theory Prelude
  imports Main
begin

text \<open>
  Shared vocabulary of the PolyglotChat model. The source is TypeScript running in a
  browser; this theory fixes how the few JavaScript primitives the code relies on are
  read in HOL:
  \<^item> a JS string is a \<open>string\<close> (a \<open>char\<close> list); non-ASCII text of the source
    (language labels, flags, the Georgian welcome line) is written as its UTF-8 bytes
    with \<open>utf8\<close>;
  \<^item> \<open>s.trim()\<close> is \<open>js_trim\<close>, which strips the ASCII whitespace and line
    terminators (TAB, LF, VT, FF, CR, SPACE) at both ends; the Unicode spaces that JS
    also strips (NBSP, BOM, the Zs category) are multi-byte sequences and are not
    stripped here;
  \<^item> the truthiness of a string (\<open>!s\<close>, \<open>a || b\<close>) is \<open>js_truthy\<close> and
    \<open>js_or\<close>; a missing key of a \<open>Record<string,string>\<close> reads as
    \<open>undefined\<close>, which is falsy, so a lookup followed by \<open>||\<close> is
    \<open>js_opt_or\<close>;
  \<^item> a JS number that is an integer (\<open>Date.now()\<close>) is an \<open>int\<close>, and its
    string form in a template or a concatenation is \<open>show_int\<close>.
  The collection \<open>js_simps\<close> gathers the rewrite rules of these helpers that the
  component theories use.
\<close>

named_theorems js_simps "rewrite rules for the JavaScript primitives of the model"

type_synonym lang_code = string
type_synonym ident = string
type_synonym trans_cache = "lang_code \<rightharpoonup> string"

section \<open>Strings\<close>

definition utf8 :: "nat list \<Rightarrow> string" where
  "utf8 bs = map char_of bs"

definition js_ws :: "char \<Rightarrow> bool" where
  "js_ws c \<longleftrightarrow> c \<in> set [CHR 0x09, CHR 0x0A, CHR 0x0B, CHR 0x0C, CHR 0x0D, CHR 0x20]"

definition js_trim :: "string \<Rightarrow> string" where
  "js_trim s = rev (dropWhile js_ws (rev (dropWhile js_ws s)))"

definition js_truthy :: "string \<Rightarrow> bool" where
  "js_truthy s \<longleftrightarrow> s \<noteq> []"

definition js_or :: "string \<Rightarrow> string \<Rightarrow> string" where
  "js_or a b = (if js_truthy a then a else b)"

definition js_opt_or :: "string option \<Rightarrow> string \<Rightarrow> string" where
  "js_opt_or a b = (case a of None \<Rightarrow> b | Some s \<Rightarrow> js_or s b)"

definition js_opt_truthy :: "string option \<Rightarrow> bool" where
  "js_opt_truthy a = (case a of None \<Rightarrow> False | Some s \<Rightarrow> js_truthy s)"

section \<open>Numbers as decimal strings\<close>

fun show_nat :: "nat \<Rightarrow> string" where
  "show_nat n = (if n < 10 then [char_of (48 + n)]
                 else show_nat (n div 10) @ [char_of (48 + n mod 10)])"

declare show_nat.simps [simp del]

definition read_nat :: "string \<Rightarrow> nat" where
  "read_nat s = foldl (\<lambda>acc c. 10 * acc + (of_char c - 48)) 0 s"

definition show_int :: "int \<Rightarrow> string" where
  "show_int i = (if i < 0 then CHR ''-'' # show_nat (nat (- i)) else show_nat (nat i))"

section \<open>Lists\<close>

text \<open>Removing the entry at a position: how a resolved request leaves the pending list.\<close>

definition remove_nth :: "nat \<Rightarrow> 'a list \<Rightarrow> 'a list" where
  "remove_nth i xs = take i xs @ drop (Suc i) xs"

section \<open>Lemmas on the JavaScript primitives\<close>

lemma js_trim_fixed:
  assumes "t = [] \<or> \<not> js_ws (hd t) \<and> \<not> js_ws (last t)"
  shows "js_trim t = t"
  using assms unfolding js_trim_def by (metis dropWhile_eq_self_iff hd_rev rev_rev_ident rev_is_Nil_conv)

lemma js_trim_ends:
  "js_trim s = [] \<or> \<not> js_ws (hd (js_trim s)) \<and> \<not> js_ws (last (js_trim s))"
proof -
  define A where "A = dropWhile js_ws s"
  define B where "B = dropWhile js_ws (rev A)"
  have t: "js_trim s = rev B" unfolding js_trim_def A_def B_def ..
  show ?thesis
  proof (cases "B = []")
    case True
    then show ?thesis by (simp add: t)
  next
    case False
    have hdB: "\<not> js_ws (hd B)"
      using False unfolding B_def by (rule hd_dropWhile)
    have "last B = last (rev A)"
    proof -
      have "hd B \<in> set (rev A)"
        using hd_in_set [OF False] unfolding B_def by (rule set_dropWhileD)
      then show ?thesis using hdB unfolding B_def by (rule dropWhile_last)
    qed
    moreover from False have "A \<noteq> []" unfolding B_def by auto
    ultimately have "last B = hd A" by (simp add: last_rev)
    moreover have "\<not> js_ws (hd A)"
      using \<open>A \<noteq> []\<close> unfolding A_def by (rule hd_dropWhile)
    ultimately have lastB: "\<not> js_ws (last B)" by simp
    from False hdB lastB show ?thesis by (simp add: t hd_rev last_rev)
  qed
qed

lemma js_trim_idem [js_simps]: "js_trim (js_trim s) = js_trim s"
  by (rule js_trim_fixed) (rule js_trim_ends)

lemma js_opt_or_None [js_simps]: "js_opt_or None b = b"
  by (simp add: js_opt_or_def)

lemma js_opt_or_Some [js_simps]: "js_opt_or (Some a) b = js_or a b"
  by (simp add: js_opt_or_def)

lemma js_opt_truthy_None [js_simps]: "\<not> js_opt_truthy None"
  by (simp add: js_opt_truthy_def)

lemma js_opt_truthy_Some [js_simps]: "js_opt_truthy (Some a) = js_truthy a"
  by (simp add: js_opt_truthy_def)


lemma js_trim_Nil_iff: "js_trim s = [] \<longleftrightarrow> (\<forall>c\<in>set s. js_ws c)"
proof -
  have "js_trim s = [] \<longleftrightarrow> dropWhile js_ws (rev (dropWhile js_ws s)) = []"
    by (simp add: js_trim_def)
  also have "\<dots> \<longleftrightarrow> dropWhile js_ws s = []"
  proof
    assume dw: "dropWhile js_ws (rev (dropWhile js_ws s)) = []"
    show "dropWhile js_ws s = []"
    proof (rule ccontr)
      assume ne: "dropWhile js_ws s \<noteq> []"
      then have "\<not> js_ws (hd (dropWhile js_ws s))" by (rule hd_dropWhile)
      moreover have "hd (dropWhile js_ws s) \<in> set (rev (dropWhile js_ws s))"
        using ne by simp
      ultimately show False using dw by (simp add: dropWhile_eq_Nil_conv)
    qed
  next
    assume "dropWhile js_ws s = []"
    then show "dropWhile js_ws (rev (dropWhile js_ws s)) = []"
      by (simp only: rev.simps(1) dropWhile.simps(1))
  qed
  also have "\<dots> \<longleftrightarrow> (\<forall>c\<in>set s. js_ws c)"
    by (rule dropWhile_eq_Nil_conv)
  finally show ?thesis .
qed

lemma js_or_truthy [js_simps]: "js_truthy a \<Longrightarrow> js_or a b = a"
  by (simp add: js_or_def)
lemma js_or_falsy [js_simps]: "\<not> js_truthy a \<Longrightarrow> js_or a b = b"
  by (simp add: js_or_def)
lemma js_or_cases: "js_or a b = a \<or> js_or a b = b"
  by (simp add: js_or_def)
lemma js_truthy_js_or: "js_truthy b \<Longrightarrow> js_truthy (js_or a b)"
  by (simp add: js_or_def)

lemma read_nat_snoc: "read_nat (xs @ [c]) = 10 * read_nat xs + (of_char c - 48)"
  by (simp add: read_nat_def)

lemma read_show_nat: "read_nat (show_nat n) = n"
proof (induction n rule: show_nat.induct)
  case (1 n)
  show ?case
  proof (cases "n < 10")
    case True
    then show ?thesis by (simp add: read_nat_def show_nat.simps [of n])
  next
    case False
    with "1.IH" show ?thesis by (simp add: read_nat_snoc show_nat.simps [of n])
  qed
qed

lemma show_nat_inj: "show_nat m = show_nat n \<longleftrightarrow> m = n"
  by (metis read_show_nat)

lemma show_nat_digits: "c \<in> set (show_nat n) \<Longrightarrow> (48::nat) \<le> of_char c \<and> of_char c < (58::nat)"
proof (induction n rule: show_nat.induct)
  case (1 n)
  then show ?case
    by (cases "n < 10") (auto simp: show_nat.simps [of n])
qed
lemma show_nat_ne: "show_nat n \<noteq> []"
  by (simp add: show_nat.simps [of n])

lemma show_nat_not_minus: "show_nat n \<noteq> CHR ''-'' # xs"
proof
  assume "show_nat n = CHR ''-'' # xs"
  then have "CHR ''-'' \<in> set (show_nat n)" by simp
  from show_nat_digits [OF this] show False by simp
qed

lemma show_int_inj: "show_int i = show_int j \<longleftrightarrow> i = j"
  using show_nat_not_minus by (auto simp: show_int_def show_nat_inj split: if_splits) (metis show_nat_not_minus)+

section \<open>Lemmas on lists\<close>


lemma foldl_invariant:
  "(\<And>s x. x \<in> set xs \<Longrightarrow> P s \<Longrightarrow> P (f s x)) \<Longrightarrow> P s \<Longrightarrow> P (foldl f s xs)"
  by (induction xs arbitrary: s) auto

lemma distinct_map_pair: "distinct (map f xs) \<Longrightarrow> distinct (map (\<lambda>x. (f x, g x)) xs)"
  by (induction xs) auto

text \<open>Selecting by a key that is unique in the list picks exactly one entry.\<close>

lemma filter_key_unique:
  "distinct (map f xs) \<Longrightarrow> x \<in> set xs \<Longrightarrow> filter (\<lambda>y. f x = f y) xs = [x]"
  by (induction xs) (auto simp: filter_empty_conv rev_image_eqI)

lemma set_remove_nth_subset: "set (remove_nth i xs) \<subseteq> set xs"
  by (auto simp: remove_nth_def dest: in_set_takeD in_set_dropD)

lemma length_filter_remove_nth:
  assumes "i < length xs"
  shows "length (filter P (remove_nth i xs)) + (if P (xs ! i) then 1 else 0) = length (filter P xs)"
proof -
  from assms have "xs = take i xs @ xs ! i # drop (Suc i) xs"
    by (simp add: id_take_nth_drop)
  then have "length (filter P xs) = length (filter P (take i xs @ xs ! i # drop (Suc i) xs))"
    by (rule arg_cong [where f = "\<lambda>l. length (filter P l)"])
  also have "\<dots> = length (filter P (take i xs @ drop (Suc i) xs)) + (if P (xs ! i) then 1 else 0)"
    by simp
  finally show ?thesis by (simp add: remove_nth_def)
qed
text \<open>A list without repetitions inside a finite set is no longer than the set.\<close>

lemma distinct_length_le_card:
  "distinct xs \<Longrightarrow> set xs \<subseteq> X \<Longrightarrow> finite X \<Longrightarrow> length xs \<le> card X"
  by (metis card_mono distinct_card)
lemma set_remove_nth:
  assumes "i < length xs"
  shows "set xs = insert (xs ! i) (set (remove_nth i xs))"
proof -
  from assms have "xs = take i xs @ xs ! i # drop (Suc i) xs"
    by (simp add: id_take_nth_drop)
  then have "set xs = set (take i xs @ xs ! i # drop (Suc i) xs)"
    by (rule arg_cong)
  then show ?thesis by (simp add: remove_nth_def)
qed

lemma remove_nth_other_key:
  assumes "distinct (map f xs)" and "i < length xs" and "x \<in> set (remove_nth i xs)"
  shows "f x \<noteq> f (xs ! i)"
proof -
  from assms(2) have "xs = take i xs @ xs ! i # drop (Suc i) xs"
    by (simp add: id_take_nth_drop)
  then have "map f xs = map f (take i xs) @ f (xs ! i) # map f (drop (Suc i) xs)"
    by (rule arg_cong [where f = "map f", THEN trans]) simp
  with assms(1) have "f (xs ! i) \<notin> f ` set (take i xs) \<union> f ` set (drop (Suc i) xs)"
    by simp
  with assms(3) show ?thesis by (auto simp: remove_nth_def rev_image_eqI)
qed

lemma filter_remove_nth_skip:
  assumes "i < length xs" and "\<not> P (xs ! i)"
  shows "filter P (remove_nth i xs) = filter P xs"
proof -
  from assms(1) have "xs = take i xs @ xs ! i # drop (Suc i) xs"
    by (simp add: id_take_nth_drop)
  then have "filter P xs = filter P (take i xs) @ filter P (drop (Suc i) xs)"
    using assms(2) by (metis filter.simps(2) filter_append)
  then show ?thesis by (simp add: remove_nth_def)
qed

lemma filter_remove_nth_hit:
  assumes "i < length xs" and "P (xs ! i)" and "distinct (map f (filter P xs))"
  shows "distinct (map f (filter P (remove_nth i xs))) \<and>
         set (map f (filter P (remove_nth i xs))) = set (map f (filter P xs)) - {f (xs ! i)}"
proof -
  from assms(1) have "xs = take i xs @ xs ! i # drop (Suc i) xs"
    by (simp add: id_take_nth_drop)
  then have fx: "filter P xs = filter P (take i xs) @ xs ! i # filter P (drop (Suc i) xs)"
    using assms(2) by (metis filter.simps(2) filter_append)
  have fr: "filter P (remove_nth i xs) = filter P (take i xs) @ filter P (drop (Suc i) xs)"
    by (simp add: remove_nth_def)
  from assms(3) fx show ?thesis
    unfolding fr by auto
qed

end
