(* ===== verification/Types.thy ===== *)
theory Types
  imports Prelude
begin

text \<open>
  The data model of \<open>src/types.ts\<close>: the \<open>User\<close> and \<open>Message\<close>
  interfaces as records, the \<open>LanguageOption\<close> interface and the registry
  \<open>SUPPORTED_LANGUAGES\<close>. Field names carry a prefix (\<open>user_\<close>,
  \<open>msg_\<close>, \<open>lo_\<close>) because \<open>id\<close>, \<open>text\<close> and
  \<open>translations\<close> are names of HOL or of the theory language. The
  \<open>translations: Record<string, string>\<close> field is a map from language codes to
  translated text (\<open>trans_cache\<close>); a JavaScript \<open>number\<close> timestamp is an
  \<open>int\<close> of epoch milliseconds. Non-ASCII labels and flags are their UTF-8 bytes.
\<close>

record user =
  user_id :: ident
  user_nickname :: string
  user_language :: lang_code
  user_language_label :: string

record message =
  msg_id :: ident
  msg_sender_id :: ident
  msg_sender_name :: string
  msg_text :: string
  msg_original_language :: lang_code
  msg_timestamp :: int
  msg_translations :: trans_cache

record language_option =
  lo_code :: lang_code
  lo_label :: string
  lo_flag :: string

definition supported_languages :: "language_option list" where
  "supported_languages = [
     \<lparr>lo_code = ''ka'', lo_label = utf8 [225, 131, 165, 225, 131, 144, 225, 131, 160, 225, 131, 151, 225, 131, 163, 225, 131, 154, 225, 131, 152],
      lo_flag = utf8 [240, 159, 135, 172, 240, 159, 135, 170]\<rparr>,
     \<lparr>lo_code = ''en'', lo_label = ''English'',
      lo_flag = utf8 [240, 159, 135, 186, 240, 159, 135, 184]\<rparr>,
     \<lparr>lo_code = ''es'', lo_label = utf8 [69, 115, 112, 97, 195, 177, 111, 108],
      lo_flag = utf8 [240, 159, 135, 170, 240, 159, 135, 184]\<rparr>,
     \<lparr>lo_code = ''fr'', lo_label = utf8 [70, 114, 97, 110, 195, 167, 97, 105, 115],
      lo_flag = utf8 [240, 159, 135, 171, 240, 159, 135, 183]\<rparr>,
     \<lparr>lo_code = ''de'', lo_label = ''Deutsch'',
      lo_flag = utf8 [240, 159, 135, 169, 240, 159, 135, 170]\<rparr>,
     \<lparr>lo_code = ''it'', lo_label = ''Italiano'',
      lo_flag = utf8 [240, 159, 135, 174, 240, 159, 135, 185]\<rparr>,
     \<lparr>lo_code = ''ja'', lo_label = utf8 [230, 151, 165, 230, 156, 172, 232, 170, 158],
      lo_flag = utf8 [240, 159, 135, 175, 240, 159, 135, 181]\<rparr>,
     \<lparr>lo_code = ''ko'', lo_label = utf8 [237, 149, 156, 234, 181, 173, 236, 150, 180],
      lo_flag = utf8 [240, 159, 135, 176, 240, 159, 135, 183]\<rparr>,
     \<lparr>lo_code = ''zh'', lo_label = utf8 [228, 184, 173, 230, 150, 135],
      lo_flag = utf8 [240, 159, 135, 168, 240, 159, 135, 179]\<rparr>,
     \<lparr>lo_code = ''tr'', lo_label = utf8 [84, 195, 188, 114, 107, 195, 167, 101],
      lo_flag = utf8 [240, 159, 135, 185, 240, 159, 135, 183]\<rparr>,
     \<lparr>lo_code = ''uk'', lo_label = utf8 [208, 163, 208, 186, 209, 128, 208, 176, 209, 151, 208, 189, 209, 129, 209, 140, 208, 186, 208, 176],
      lo_flag = utf8 [240, 159, 135, 186, 240, 159, 135, 166]\<rparr>]"

text \<open>
  The registry has eleven entries with pairwise distinct codes, and its first entry
  (the default selection of the join screen) is Georgian.
\<close>

lemma supported_languages_codes:
  "map lo_code supported_languages =
     [''ka'', ''en'', ''es'', ''fr'', ''de'', ''it'', ''ja'', ''ko'', ''zh'', ''tr'', ''uk'']"
  by (simp add: supported_languages_def)

lemma supported_languages_distinct_codes: "distinct (map lo_code supported_languages)"
  by (simp add: supported_languages_codes)

lemma supported_languages_length: "length supported_languages = 11"
  by (simp add: supported_languages_def)

lemma supported_languages_first: "lo_code (hd supported_languages) = ''ka''"
  by (simp add: supported_languages_def)

end
