(* ===== verification/Store.thy ===== *)
theory Store
  imports Types
begin

text \<open>
  The conversation store of \<open>src/App.tsx\<close>: the \<open>messages\<close> state of \<open>App\<close>,
  a list in creation order. The three message constructors are the literals built by
  \<open>handleJoin\<close> (the system welcome line), \<open>handleSendMessage\<close> (a user's
  message) and the bot timer callback; the two list operations are the functional
  updates passed to \<open>setMessages\<close>: appending (\<open>prev => [...prev, m]\<close>) and
  replacing by id (\<open>handleUpdateMessage\<close>). \<open>Date.now()\<close> and the random id
  suffix \<open>Math.random().toString(36).substr(2, 9)\<close> come from the environment and
  are parameters (\<open>now\<close>, \<open>rand\<close>); where a constructor calls \<open>Date.now()\<close>
  twice in a row (id and timestamp) both calls read the same clock value \<open>now\<close>.

  The abstract store (\<open>store_of\<close>) is the map from message ids to messages that the
  specification's Conversation Store describes; the refinement lemmas relate the list
  operations to map updates under the specification's premise that ids are unique.
\<close>

definition ka_joined_suffix :: string where
  "ka_joined_suffix = utf8 [32, 225, 131, 168, 225, 131, 148, 225, 131, 155, 225, 131, 157,
     225, 131, 149, 225, 131, 152, 225, 131, 147, 225, 131, 144, 32, 225, 131, 169, 225, 131,
     144, 225, 131, 151, 225, 131, 168, 225, 131, 152, 33]"

definition welcome_message :: "user \<Rightarrow> int \<Rightarrow> message" where
  "welcome_message u now =
     \<lparr>msg_id = ''system-'' @ show_int now,
      msg_sender_id = ''system'',
      msg_sender_name = ''System'',
      msg_text = user_nickname u @ '' joined the chat!'',
      msg_original_language = ''en'',
      msg_timestamp = now,
      msg_translations = [user_language u \<mapsto> user_nickname u @ ka_joined_suffix]\<rparr>"

definition new_message :: "user \<Rightarrow> string \<Rightarrow> string \<Rightarrow> int \<Rightarrow> message" where
  "new_message u text rand now =
     \<lparr>msg_id = ''msg-'' @ rand,
      msg_sender_id = user_id u,
      msg_sender_name = user_nickname u,
      msg_text = text,
      msg_original_language = user_language u,
      msg_timestamp = now,
      msg_translations = [user_language u \<mapsto> text]\<rparr>"

definition bot_message :: "int \<Rightarrow> message" where
  "bot_message now =
     \<lparr>msg_id = ''bot-'' @ show_int now,
      msg_sender_id = ''bot-1'',
      msg_sender_name = ''Tiko (Bot)'',
      msg_text = ''Welcome everyone! I can speak many languages too.'',
      msg_original_language = ''en'',
      msg_timestamp = now,
      msg_translations = Map.empty\<rparr>"

definition append_message :: "message list \<Rightarrow> message \<Rightarrow> message list" where
  "append_message ms m = ms @ [m]"

definition update_message :: "message list \<Rightarrow> message \<Rightarrow> message list" where
  "update_message ms updated = map (\<lambda>m. if msg_id m = msg_id updated then updated else m) ms"

definition msg_ids :: "message list \<Rightarrow> ident list" where
  "msg_ids ms = map msg_id ms"

definition store_of :: "message list \<Rightarrow> ident \<rightharpoonup> message" where
  "store_of ms = map_of (map (\<lambda>m. (msg_id m, m)) ms)"

section \<open>Lemmas on the store operations\<close>


lemma msg_ids_update_message [simp]: "msg_ids (update_message ms u) = msg_ids ms"
  by (simp add: msg_ids_def update_message_def)

lemma length_update_message [simp]: "length (update_message ms u) = length ms"
  by (simp add: update_message_def)

lemma msg_ids_append_message [simp]: "msg_ids (append_message ms m) = msg_ids ms @ [msg_id m]"
  by (simp add: msg_ids_def append_message_def)

lemma length_append_message [simp]: "length (append_message ms m) = Suc (length ms)"
  by (simp add: append_message_def)

lemma update_message_nth:
  "i < length ms \<Longrightarrow>
   update_message ms u ! i = (if msg_id (ms ! i) = msg_id u then u else ms ! i)"
  by (simp add: update_message_def)

lemma update_message_append [simp]:
  "update_message (ms @ ns) u = update_message ms u @ update_message ns u"
  by (simp add: update_message_def)

lemma update_message_cases:
  "m \<in> set (update_message ms u) \<Longrightarrow> m = u \<or> (m \<in> set ms \<and> msg_id m \<noteq> msg_id u)"
  by (auto simp: update_message_def)

lemma dom_store_of: "dom (store_of ms) = set (msg_ids ms)"
  by (simp add: store_of_def msg_ids_def dom_map_of_conv_image_fst image_image)

text \<open>
  Claim C11. MessageNotFound: replacing a message whose id is not in the log leaves
  the log unchanged (\<open>handleUpdateMessage\<close> fails silently).
\<close>

lemma update_message_absent:
  "msg_id u \<notin> set (msg_ids ms) \<Longrightarrow> update_message ms u = ms"
  by (induction ms) (auto simp: update_message_def msg_ids_def)

lemma update_message_absent_witness:
  "msg_id \<lparr>msg_id = ''x'', msg_sender_id = ''a'', msg_sender_name = ''A'', msg_text = ''hi'',
     msg_original_language = ''en'', msg_timestamp = 0, msg_translations = Map.empty\<rparr>
     \<notin> set (msg_ids []) \<and>
   update_message [] \<lparr>msg_id = ''x'', msg_sender_id = ''a'', msg_sender_name = ''A'', msg_text = ''hi'',
     msg_original_language = ''en'', msg_timestamp = 0, msg_translations = Map.empty\<rparr> = []"
proof -
  have h: "msg_id \<lparr>msg_id = ''x'', msg_sender_id = ''a'', msg_sender_name = ''A'', msg_text = ''hi'',
     msg_original_language = ''en'', msg_timestamp = 0, msg_translations = Map.empty\<rparr>
     \<notin> set (msg_ids [])"
    by (simp add: msg_ids_def)
  show ?thesis using h update_message_absent [OF h] by (rule conjI)
qed

text \<open>
  Claim C10. Refinement: on the abstract id-indexed store, \<open>handleUpdateMessage\<close>
  is a map update at the message's id when the id is present and the identity when it
  is absent; on the list it keeps every id in its position.
\<close>

lemma store_of_update_message:
  "store_of (update_message ms u) =
     (if msg_id u \<in> dom (store_of ms) then (store_of ms)(msg_id u \<mapsto> u) else store_of ms)"
proof (induction ms)
  case Nil
  then show ?case by (simp add: store_of_def update_message_def)
next
  case (Cons m ms)
  then show ?case
    by (auto simp: store_of_def update_message_def fun_upd_twist)
qed

lemma store_of_append_message:
  "store_of (append_message ms m) =
     (if msg_id m \<in> dom (store_of ms) then store_of ms else (store_of ms)(msg_id m \<mapsto> m))"
  by (auto simp: store_of_def append_message_def map_add_def fun_eq_iff split: option.splits)
text \<open>
  Claim C18. Ids of system messages (\<open>'system-' + Date.now()\<close>) coincide exactly
  when the joins read the same clock value; the same holds for bot messages. Two joins
  in one millisecond therefore give two messages with one id.
\<close>

theorem welcome_ids_distinct:
  "msg_id (welcome_message u now) = msg_id (welcome_message v now') \<longleftrightarrow> now = now'"
  by (simp add: welcome_message_def show_int_inj)

theorem bot_ids_distinct:
  "msg_id (bot_message now) = msg_id (bot_message now') \<longleftrightarrow> now = now'"
  by (simp add: bot_message_def show_int_inj)

end
