(* ===== verification/Gemini.thy ===== *)
theory Gemini
  imports Complex_Main Prelude
begin

text \<open>
  The translation service of \<open>src/services/gemini.ts\<close>. \<open>translateText\<close> builds
  one \<open>generateContent\<close> request (model name, prompt, sampling configuration), sends
  it, and maps the provider's answer to a string: the trimmed \<open>response.text\<close> when
  that is a non-empty string, the original text otherwise, and the original text when
  the call throws. The provider is outside the program: it is a parameter
  \<open>provider :: gen_request \<Rightarrow> provider_reply\<close>, so every property below holds
  for every behaviour of the remote service, failures included. The
  \<open>console.error\<close> logging of the catch branch has no effect on the program's state
  and is not modelled.
\<close>

datatype provider_reply =
    Reply_Throws
  | Reply_Text "string option"

record gen_request =
  gr_model :: string
  gr_contents :: string
  gr_temperature :: real
  gr_top_p :: real

definition translation_prompt :: "string \<Rightarrow> lang_code \<Rightarrow> string" where
  "translation_prompt text target_language =
     ''Translate the following chat message to '' @ target_language @ ''. '' @ [CHR 0x0A] @
     ''      Maintain the casual tone of a chat message. '' @ [CHR 0x0A] @
     ''      Do not include any explanations, just the translated text.'' @ [CHR 0x0A] @
     ''      '' @ [CHR 0x0A] @
     ''      Message: '' @ [CHR 0x22] @ text @ [CHR 0x22]"

definition generate_request :: "string \<Rightarrow> lang_code \<Rightarrow> gen_request" where
  "generate_request text target_language =
     \<lparr>gr_model = ''gemini-3-flash-preview'',
      gr_contents = translation_prompt text target_language,
      gr_temperature = 1 / 10, gr_top_p = 1 / 10\<rparr>"

definition translate_result :: "provider_reply \<Rightarrow> string \<Rightarrow> string" where
  "translate_result reply text =
     (case reply of
        Reply_Throws \<Rightarrow> text
      | Reply_Text r \<Rightarrow> js_opt_or (map_option js_trim r) text)"

definition translate_text ::
  "(gen_request \<Rightarrow> provider_reply) \<Rightarrow> string \<Rightarrow> lang_code \<Rightarrow> string" where
  "translate_text provider text target_language =
     translate_result (provider (generate_request text target_language)) text"

section \<open>Properties of the translation call\<close>


lemma translate_result_cases:
  "translate_result reply text = text \<or>
   (\<exists>r. reply = Reply_Text (Some r) \<and> js_truthy (js_trim r) \<and> translate_result reply text = js_trim r)"
  by (auto simp: translate_result_def js_opt_or_def js_or_def split: provider_reply.splits option.splits)

lemma translate_result_truthy: "js_truthy text \<Longrightarrow> js_truthy (translate_result reply text)"
  using translate_result_cases [of reply "text"] by auto

text \<open>
  Claim C6. Fail-soft: whatever the provider answers (an exception, no text, blank
  text), \<open>translateText\<close> of a non-empty message returns a non-empty string, so
  the value cached for it is truthy.
\<close>

lemma translate_text_fail_soft:
  "js_truthy text \<Longrightarrow> js_truthy (translate_text provider text target_language)"
  unfolding translate_text_def by (rule translate_result_truthy)

lemma translate_text_fail_soft_witness:
  "js_truthy ''hello'' \<and> js_truthy (translate_text (\<lambda>_. Reply_Text (Some ''  '')) ''hello'' ''fr'')"
  using translate_text_fail_soft [of "''hello''" "\<lambda>_. Reply_Text (Some ''  '')" "''fr''"]
  by (simp add: js_truthy_def)

text \<open>
  Claim C12. When the request throws, \<open>translateText\<close> returns the original text
  unchanged (the catch branch).
\<close>

lemma translate_text_throws:
  "provider (generate_request text target_language) = Reply_Throws \<Longrightarrow>
   translate_text provider text target_language = text"
  by (simp add: translate_text_def translate_result_def)


theorem translate_text_throws_witness:
  "(\<lambda>_. Reply_Throws) (generate_request ''hello'' ''fr'') = Reply_Throws \<and>
   translate_text (\<lambda>_. Reply_Throws) ''hello'' ''fr'' = ''hello''"
proof -
  have h: "(\<lambda>_. Reply_Throws) (generate_request ''hello'' ''fr'') = Reply_Throws" by simp
  show ?thesis using h translate_text_throws [OF h] by (rule conjI)
qed

lemma translate_text_ok:
  "provider (generate_request text target_language) = Reply_Text (Some r) \<Longrightarrow> js_truthy (js_trim r) \<Longrightarrow>
   translate_text provider text target_language = js_trim r"
  by (simp add: translate_text_def translate_result_def js_simps)

text \<open>The prompt carries the target language and then the message text verbatim.\<close>

lemma translation_prompt_embeds:
  "\<exists>pre mid suf. translation_prompt text target_language = pre @ target_language @ mid @ text @ suf"
proof -
  let ?mid = "''. '' @ [CHR 0x0A] @
     ''      Maintain the casual tone of a chat message. '' @ [CHR 0x0A] @
     ''      Do not include any explanations, just the translated text.'' @ [CHR 0x0A] @
     ''      '' @ [CHR 0x0A] @ ''      Message: '' @ [CHR 0x22]"
  have "translation_prompt text target_language =
          ''Translate the following chat message to '' @ target_language @ ?mid @ text @ [CHR 0x22]"
    by (simp add: translation_prompt_def)
  then show ?thesis by blast
qed

end
