(* ===== verification/Bubble.thy ===== *)
theory Bubble
  imports Store Gemini
begin

text \<open>
  One chat bubble, \<open>src/components/MessageBubble.tsx\<close>, as seen by the signed-in
  user \<open>u\<close>. The component's derived values are functions of the message and the
  viewer: \<open>isMine\<close>, \<open>isSystem\<close>, the memoised \<open>displayedText\<close> and
  \<open>needsTranslation\<close>. Its one piece of state, \<open>isTranslating\<close>, and its effect
  (start a translation when \<open>needsTranslation && !isTranslating\<close>) belong to the
  application's state machine (theory \<open>App\<close>); this theory gives the effect's guard
  (\<open>effect_starts\<close>) and the message the effect writes back when the translation
  resolves (\<open>translated_message\<close>: the message captured when the effect ran, with
  \<open>translations[language]\<close> set). \<open>bubble_view\<close> is what the component renders,
  with the time label left as the raw timestamp (\<open>toLocaleTimeString\<close> depends on
  the browser's locale) and \<open>toUpperCase\<close> on the ASCII language code.
\<close>

definition is_mine :: "message \<Rightarrow> user \<Rightarrow> bool" where
  "is_mine m u \<longleftrightarrow> msg_sender_id m = user_id u"

definition is_system :: "message \<Rightarrow> bool" where
  "is_system m \<longleftrightarrow> msg_sender_id m = ''system''"

definition displayed_text :: "message \<Rightarrow> user \<Rightarrow> string" where
  "displayed_text m u =
     (if msg_original_language m = user_language u then msg_text m
      else js_opt_or (msg_translations m (user_language u)) (msg_text m))"

definition needs_translation :: "message \<Rightarrow> user \<Rightarrow> bool" where
  "needs_translation m u \<longleftrightarrow>
     msg_original_language m \<noteq> user_language u \<and>
     \<not> js_opt_truthy (msg_translations m (user_language u)) \<and>
     \<not> is_system m"

definition effect_starts :: "message \<Rightarrow> user \<Rightarrow> bool \<Rightarrow> bool" where
  "effect_starts m u is_translating \<longleftrightarrow> needs_translation m u \<and> \<not> is_translating"

definition translated_message :: "message \<Rightarrow> lang_code \<Rightarrow> string \<Rightarrow> message" where
  "translated_message m language translated =
     m\<lparr>msg_translations := (msg_translations m)(language \<mapsto> translated)\<rparr>"

definition js_upper_ascii :: "string \<Rightarrow> string" where
  "js_upper_ascii s =
     map (\<lambda>c. if (97::nat) \<le> of_char c \<and> of_char c \<le> (122::nat)
                 then char_of (of_char c - (32::nat)) else c) s"

datatype bubble_body = Typing_Dots | Body_Text string

datatype bubble_view =
    System_Bubble string
  | Chat_Bubble bool "string option" int bubble_body "string option"

definition bubble_view :: "message \<Rightarrow> user \<Rightarrow> bool \<Rightarrow> bubble_view" where
  "bubble_view m u is_translating =
     (if is_system m then System_Bubble (displayed_text m u)
      else Chat_Bubble (is_mine m u)
             (if is_mine m u then None else Some (msg_sender_name m))
             (msg_timestamp m)
             (if is_translating then Typing_Dots else Body_Text (displayed_text m u))
             (if \<not> is_mine m u \<and> msg_original_language m \<noteq> user_language u
              then Some (''Translated from '' @ js_upper_ascii (msg_original_language m))
              else None))"

text \<open>
  The specification's \<open>updateTranslation(messageId, language, text)\<close> of the
  Conversation Store: in the message stored under the id, set the entry if the key is
  not yet set, otherwise leave it; every other field and entry is kept. It is the
  abstract operation the code's write-back is compared with; it is not code, and it is
  written on the stored message, independently of \<open>translated_message\<close>.
\<close>
definition spec_update_translation ::
  "message list \<Rightarrow> ident \<Rightarrow> lang_code \<Rightarrow> string \<Rightarrow> message list" where
  "spec_update_translation ms i language t =
     map (\<lambda>m. if msg_id m = i \<and> msg_translations m language = None
               then m\<lparr>msg_translations := (msg_translations m)(language \<mapsto> t)\<rparr> else m) ms"

section \<open>Lemmas on the bubble\<close>

lemma translated_message_fields [simp]:
  "msg_id (translated_message m l t) = msg_id m"
  "msg_sender_id (translated_message m l t) = msg_sender_id m"
  "msg_sender_name (translated_message m l t) = msg_sender_name m"
  "msg_text (translated_message m l t) = msg_text m"
  "msg_original_language (translated_message m l t) = msg_original_language m"
  "msg_timestamp (translated_message m l t) = msg_timestamp m"
  "msg_translations (translated_message m l t) = (msg_translations m)(l \<mapsto> t)"
  by (simp_all add: translated_message_def)

lemma is_system_translated_message [simp]: "is_system (translated_message m l t) = is_system m"
  by (simp add: is_system_def)

lemma system_no_translation: "is_system m \<Longrightarrow> \<not> needs_translation m u"
  by (simp add: needs_translation_def)

text \<open>
  Claim C7. A message in the viewer's own language is displayed as its canonical
  text, and the bubble does not ask for a translation of it.
\<close>

lemma same_language_display:
  "msg_original_language m = user_language u \<Longrightarrow>
   displayed_text m u = msg_text m \<and> \<not> needs_translation m u"
  by (simp add: displayed_text_def needs_translation_def)


theorem same_language_display_witness:
  "msg_original_language \<lparr>msg_id = ''m'', msg_sender_id = ''a'', msg_sender_name = ''A'',
      msg_text = ''hola'', msg_original_language = ''es'', msg_timestamp = 0,
      msg_translations = Map.empty\<rparr> =
   user_language \<lparr>user_id = ''b'', user_nickname = ''B'', user_language = ''es'',
      user_language_label = ''Es''\<rparr> \<and>
   displayed_text \<lparr>msg_id = ''m'', msg_sender_id = ''a'', msg_sender_name = ''A'',
      msg_text = ''hola'', msg_original_language = ''es'', msg_timestamp = 0,
      msg_translations = Map.empty\<rparr> \<lparr>user_id = ''b'', user_nickname = ''B'',
      user_language = ''es'', user_language_label = ''Es''\<rparr> =
   msg_text \<lparr>msg_id = ''m'', msg_sender_id = ''a'', msg_sender_name = ''A'',
      msg_text = ''hola'', msg_original_language = ''es'', msg_timestamp = 0,
      msg_translations = Map.empty\<rparr> \<and>
   \<not> needs_translation \<lparr>msg_id = ''m'', msg_sender_id = ''a'', msg_sender_name = ''A'',
      msg_text = ''hola'', msg_original_language = ''es'', msg_timestamp = 0,
      msg_translations = Map.empty\<rparr> \<lparr>user_id = ''b'', user_nickname = ''B'',
      user_language = ''es'', user_language_label = ''Es''\<rparr>"
proof -
  have h: "msg_original_language \<lparr>msg_id = ''m'', msg_sender_id = ''a'', msg_sender_name = ''A'',
      msg_text = ''hola'', msg_original_language = ''es'', msg_timestamp = 0,
      msg_translations = Map.empty\<rparr> =
   user_language \<lparr>user_id = ''b'', user_nickname = ''B'', user_language = ''es'',
      user_language_label = ''Es''\<rparr>" by simp
  show ?thesis using h same_language_display [OF h] by (rule conjI)
qed

lemma displayed_text_source:
  "displayed_text m u = msg_text m \<or> msg_translations m (user_language u) = Some (displayed_text m u)"
  by (auto simp: displayed_text_def js_opt_or_def js_or_def split: option.splits)

text \<open>
  Claim C8. Once the write-back has stored a non-empty translation for the
  viewer's language, \<open>needsTranslation\<close> is false for that viewer and the bubble
  displays the stored translation.
\<close>

lemma translated_message_cache_hit:
  "js_truthy t \<Longrightarrow>
   \<not> needs_translation (translated_message m (user_language u) t) u \<and>
   (msg_original_language m \<noteq> user_language u \<longrightarrow>
      displayed_text (translated_message m (user_language u) t) u = t)"
  by (simp add: needs_translation_def displayed_text_def js_simps)


theorem translated_message_cache_hit_witness:
  "js_truthy ''bonjour'' \<and>
   \<not> needs_translation (translated_message \<lparr>msg_id = ''m'', msg_sender_id = ''a'',
      msg_sender_name = ''A'', msg_text = ''hello'', msg_original_language = ''en'',
      msg_timestamp = 0, msg_translations = Map.empty\<rparr>
      (user_language \<lparr>user_id = ''b'', user_nickname = ''B'', user_language = ''fr'',
        user_language_label = ''Fr''\<rparr>) ''bonjour'')
      \<lparr>user_id = ''b'', user_nickname = ''B'', user_language = ''fr'', user_language_label = ''Fr''\<rparr> \<and>
   displayed_text (translated_message \<lparr>msg_id = ''m'', msg_sender_id = ''a'',
      msg_sender_name = ''A'', msg_text = ''hello'', msg_original_language = ''en'',
      msg_timestamp = 0, msg_translations = Map.empty\<rparr>
      (user_language \<lparr>user_id = ''b'', user_nickname = ''B'', user_language = ''fr'',
        user_language_label = ''Fr''\<rparr>) ''bonjour'')
      \<lparr>user_id = ''b'', user_nickname = ''B'', user_language = ''fr'', user_language_label = ''Fr''\<rparr>
      = ''bonjour''"
proof -
  have h: "js_truthy ''bonjour''" by (simp add: js_truthy_def)
  have d: "msg_original_language \<lparr>msg_id = ''m'', msg_sender_id = ''a'',
      msg_sender_name = ''A'', msg_text = ''hello'', msg_original_language = ''en'',
      msg_timestamp = 0, msg_translations = Map.empty\<rparr> \<noteq>
      user_language \<lparr>user_id = ''b'', user_nickname = ''B'', user_language = ''fr'',
        user_language_label = ''Fr''\<rparr>" by simp
  note c = translated_message_cache_hit [OF h]
  show ?thesis by (rule conjI [OF h conjI [OF c [THEN conjunct1] c [THEN conjunct2, rule_format, OF d]]])
qed

lemma bubble_view_own:
  "is_mine m u \<Longrightarrow> \<not> is_system m \<Longrightarrow>
   bubble_view m u tr =
     Chat_Bubble True None (msg_timestamp m)
       (if tr then Typing_Dots else Body_Text (displayed_text m u)) None"
  by (simp add: bubble_view_def)

lemma bubble_view_pending:
  "\<not> is_system m \<Longrightarrow> \<exists>mine sender label.
     bubble_view m u True = Chat_Bubble mine sender (msg_timestamp m) Typing_Dots label"
  by (simp add: bubble_view_def)

text \<open>
  Claim C9. Refinement of the specification's \<open>updateTranslation\<close>: when the
  message captured by the bubble is the stored one (ids unique) and its cache has no
  entry for the language, the code's write-back (replace by id with the captured
  message plus the new entry) is exactly the specified set-if-absent update.
\<close>

lemma update_translation_refines:
  assumes "distinct (msg_ids ms)" and "m \<in> set ms" and "msg_translations m language = None"
  shows "update_message ms (translated_message m language t) =
         spec_update_translation ms (msg_id m) language t"
  unfolding update_message_def spec_update_translation_def
proof (rule map_cong [OF refl])
  fix m' assume "m' \<in> set ms"
  show "(if msg_id m' = msg_id (translated_message m language t) then translated_message m language t else m') =
        (if msg_id m' = msg_id m \<and> msg_translations m' language = None
         then m'\<lparr>msg_translations := (msg_translations m')(language \<mapsto> t)\<rparr> else m')"
  proof (cases "msg_id m' = msg_id m")
    case True
    with assms(1,2) \<open>m' \<in> set ms\<close> have "m' = m"
      by (metis distinct_map inj_onD msg_ids_def)
    with assms(3) show ?thesis by (simp add: translated_message_def)
  next
    case False
    then show ?thesis by simp
  qed
qed


theorem update_translation_refines_witness:
  "distinct (msg_ids [\<lparr>msg_id = ''m'', msg_sender_id = ''a'', msg_sender_name = ''A'',
      msg_text = ''hello'', msg_original_language = ''en'', msg_timestamp = 0,
      msg_translations = Map.empty\<rparr>]) \<and>
   \<lparr>msg_id = ''m'', msg_sender_id = ''a'', msg_sender_name = ''A'',
      msg_text = ''hello'', msg_original_language = ''en'', msg_timestamp = 0,
      msg_translations = Map.empty\<rparr> \<in> set [\<lparr>msg_id = ''m'', msg_sender_id = ''a'',
      msg_sender_name = ''A'', msg_text = ''hello'', msg_original_language = ''en'',
      msg_timestamp = 0, msg_translations = Map.empty\<rparr>] \<and>
   msg_translations \<lparr>msg_id = ''m'', msg_sender_id = ''a'', msg_sender_name = ''A'',
      msg_text = ''hello'', msg_original_language = ''en'', msg_timestamp = 0,
      msg_translations = Map.empty\<rparr> ''fr'' = None \<and>
   update_message [\<lparr>msg_id = ''m'', msg_sender_id = ''a'', msg_sender_name = ''A'',
      msg_text = ''hello'', msg_original_language = ''en'', msg_timestamp = 0,
      msg_translations = Map.empty\<rparr>]
     (translated_message \<lparr>msg_id = ''m'', msg_sender_id = ''a'', msg_sender_name = ''A'',
      msg_text = ''hello'', msg_original_language = ''en'', msg_timestamp = 0,
      msg_translations = Map.empty\<rparr> ''fr'' ''bonjour'') =
   spec_update_translation [\<lparr>msg_id = ''m'', msg_sender_id = ''a'', msg_sender_name = ''A'',
      msg_text = ''hello'', msg_original_language = ''en'', msg_timestamp = 0,
      msg_translations = Map.empty\<rparr>] (msg_id \<lparr>msg_id = ''m'', msg_sender_id = ''a'',
      msg_sender_name = ''A'', msg_text = ''hello'', msg_original_language = ''en'',
      msg_timestamp = 0, msg_translations = Map.empty\<rparr>) ''fr'' ''bonjour''"
proof -
  have h1: "distinct (msg_ids [\<lparr>msg_id = ''m'', msg_sender_id = ''a'', msg_sender_name = ''A'',
      msg_text = ''hello'', msg_original_language = ''en'', msg_timestamp = 0,
      msg_translations = Map.empty\<rparr>])" by (simp add: msg_ids_def)
  have h2: "\<lparr>msg_id = ''m'', msg_sender_id = ''a'', msg_sender_name = ''A'',
      msg_text = ''hello'', msg_original_language = ''en'', msg_timestamp = 0,
      msg_translations = Map.empty\<rparr> \<in> set [\<lparr>msg_id = ''m'', msg_sender_id = ''a'',
      msg_sender_name = ''A'', msg_text = ''hello'', msg_original_language = ''en'',
      msg_timestamp = 0, msg_translations = Map.empty\<rparr>]" by simp
  have h3: "msg_translations \<lparr>msg_id = ''m'', msg_sender_id = ''a'', msg_sender_name = ''A'',
      msg_text = ''hello'', msg_original_language = ''en'', msg_timestamp = 0,
      msg_translations = Map.empty\<rparr> ''fr'' = None" by simp
  show ?thesis
    by (rule conjI [OF h1 conjI [OF h2 conjI [OF h3 update_translation_refines [OF h1 h2 h3]]]])
qed

end
