(* ===== verification/JoinScreen.thy ===== *)
theory JoinScreen
  imports Types
begin

text \<open>
  The join form, \<open>src/components/JoinScreen.tsx\<close>. Its state is the nickname field
  and the selected language (initially \<open>SUPPORTED_LANGUAGES[0]\<close>); both live in the
  application state of theory \<open>App\<close>. \<open>join_submit\<close> is \<open>handleSubmit\<close>:
  the early return on a blank nickname is \<open>None\<close>, otherwise the \<open>User\<close> passed
  to \<open>onJoin\<close>, with the random id supplied by the environment.
\<close>

definition join_default_language :: language_option where
  "join_default_language = hd supported_languages"

definition join_submit :: "string \<Rightarrow> language_option \<Rightarrow> string \<Rightarrow> user option" where
  "join_submit nickname selected_lang rand =
     (if \<not> js_truthy (js_trim nickname) then None
      else Some \<lparr>user_id = rand, user_nickname = js_trim nickname,
                 user_language = lo_code selected_lang,
                 user_language_label = lo_label selected_lang\<rparr>)"

text \<open>
  Claim C19. A join that goes through signs in the user that \<open>handleSubmit\<close> builds
  from the form: the nickname is the trimmed field content, which is non-empty and has
  no blank ends, the id is the random string, and the language code and label are those
  of the selected option.
\<close>

lemma join_submit_Some:
  "join_submit nickname sel rand = Some u \<Longrightarrow>
   user_nickname u = js_trim nickname \<and> js_truthy (user_nickname u) \<and>
   js_trim (user_nickname u) = user_nickname u \<and> user_id u = rand \<and>
   user_language u = lo_code sel \<and> user_language_label u = lo_label sel"
  by (auto simp: join_submit_def js_simps split: if_splits)


theorem join_submit_Some_witness:
  "join_submit '' Ana '' (hd supported_languages) ''r1'' = Some \<lparr>user_id = ''r1'', user_nickname = ''Ana'', user_language = ''ka'',
       user_language_label = lo_label (hd supported_languages)\<rparr> \<and>
   user_nickname \<lparr>user_id = ''r1'', user_nickname = ''Ana'', user_language = ''ka'',
       user_language_label = lo_label (hd supported_languages)\<rparr> = js_trim '' Ana '' \<and>
   user_id \<lparr>user_id = ''r1'', user_nickname = ''Ana'', user_language = ''ka'',
       user_language_label = lo_label (hd supported_languages)\<rparr> = ''r1'' \<and>
   user_language \<lparr>user_id = ''r1'', user_nickname = ''Ana'', user_language = ''ka'',
       user_language_label = lo_label (hd supported_languages)\<rparr> = lo_code (hd supported_languages)"
proof -
  have h: "join_submit '' Ana '' (hd supported_languages) ''r1'' = Some \<lparr>user_id = ''r1'', user_nickname = ''Ana'', user_language = ''ka'',
       user_language_label = lo_label (hd supported_languages)\<rparr>"
    by (simp add: join_submit_def js_trim_def js_ws_def js_truthy_def supported_languages_def)
  note c = join_submit_Some [OF h]
  show ?thesis
    by (rule conjI [OF h conjI [OF c [THEN conjunct1] conjI [OF c [THEN conjunct2, THEN conjunct2, THEN conjunct2, THEN conjunct1]
         c [THEN conjunct2, THEN conjunct2, THEN conjunct2, THEN conjunct2, THEN conjunct1]]]])
qed

text \<open>A nickname made only of blanks signs nobody in.\<close>

lemma join_submit_blank:
  "join_submit nickname sel rand = None \<longleftrightarrow> (\<forall>c\<in>set nickname. js_ws c)"
  by (simp add: join_submit_def js_truthy_def js_trim_Nil_iff)

end
