(* ===== verification/ChatRoom.thy ===== *)
theory ChatRoom
  imports Types
begin

text \<open>
  The chat pane, \<open>src/components/ChatRoom.tsx\<close>. Its state is the input field
  (\<open>inputText\<close>, kept in the application state of theory \<open>App\<close>).
  \<open>chat_submit\<close> is \<open>handleSend\<close>: the early return on blank input is
  \<open>None\<close>, otherwise the trimmed text passed to \<open>onSendMessage\<close>; the caller then
  clears the field. \<open>send_disabled\<close> is the send button's \<open>disabled\<close> attribute.
  Scrolling to the bottom and the markup are presentation and are not modelled.
\<close>

definition chat_submit :: "string \<Rightarrow> string option" where
  "chat_submit input_text =
     (if \<not> js_truthy (js_trim input_text) then None else Some (js_trim input_text))"

definition send_disabled :: "string \<Rightarrow> bool" where
  "send_disabled input_text \<longleftrightarrow> \<not> js_truthy (js_trim input_text)"

lemma chat_submit_Some:
  "chat_submit input = Some t \<Longrightarrow> js_truthy t \<and> js_trim t = t"
  by (auto simp: chat_submit_def js_simps split: if_splits)

text \<open>
  Claim C20. The send handler's early return happens exactly when the send button
  is disabled: the two blank-input checks of \<open>ChatRoom\<close> agree.
\<close>

lemma chat_submit_disabled: "chat_submit input = None \<longleftrightarrow> send_disabled input"
  by (simp add: chat_submit_def send_disabled_def)

end
