(* ===== verification/App.thy ===== *)
theory App
  imports Bubble JoinScreen ChatRoom
begin

text \<open>
  The whole application, \<open>src/App.tsx\<close> with the components it mounts, as one state
  machine. The state gathers every piece of React state that the code keeps:
  \<^item> \<open>App\<close>: \<open>currentUser\<close> and \<open>messages\<close>;
  \<^item> \<open>JoinScreen\<close> (mounted while nobody is signed in): the nickname field and the
    selected language;
  \<^item> \<open>ChatRoom\<close> (mounted while a user is signed in): the input field;
  \<^item> each \<open>MessageBubble\<close>, keyed by message id: \<open>isTranslating\<close>, kept as the set
    \<open>translating\<close> of the ids whose bubble has it set;
  \<^item> the work the code has scheduled but not finished: the translations awaiting the
    provider (\<open>in_flight\<close>, each with the message the effect captured, the target
    language and the mount of the chat pane that issued it) and the bot \<open>setTimeout\<close>
    callbacks not yet run (\<open>pending_bots\<close>).
  \<open>mount\<close> counts the mounts of the chat pane: a bubble's \<open>setIsTranslating\<close>
  reaches its state only while the pane that issued the request is still the mounted
  one. \<open>translator_calls\<close> records every call of \<open>translateText\<close> (message and
  target language); nothing in the code reads it.

  An event is one thing the environment does: a keystroke or click on a mounted
  component, a timer firing, or the provider answering one of the pending requests (in
  any order, which is how concurrent requests interleave). \<open>app_step\<close> runs the
  handler and then the effect pass of the bubbles (\<open>run_effects\<close>): after every
  render, each bubble whose \<open>needsTranslation && !isTranslating\<close> holds marks itself
  translating and calls the translator. Running the pass after every event is what the
  effect's dependency list gives: whenever the guard holds, one of its dependencies has
  changed since the effect last ran.
\<close>

record request =
  rq_msg :: message
  rq_lang :: lang_code
  rq_mount :: nat

record chat_state =
  current_user :: "user option"
  messages :: "message list"
  join_nickname :: string
  join_lang :: language_option
  input_text :: string
  translating :: "ident set"
  in_flight :: "request list"
  pending_bots :: nat
  mount :: nat
  translator_calls :: "(message \<times> lang_code) list"

datatype event =
    Join_Type string
  | Join_Select nat
  | Join_Submit string int
  | Chat_Type string
  | Chat_Submit string int
  | Logout
  | Bot_Timer int
  | Translation_Done nat provider_reply

definition init_state :: chat_state where
  "init_state =
     \<lparr>current_user = None, messages = [], join_nickname = [],
      join_lang = join_default_language, input_text = [], translating = {},
      in_flight = [], pending_bots = 0, mount = 0, translator_calls = []\<rparr>"

definition handle_join :: "chat_state \<Rightarrow> user \<Rightarrow> int \<Rightarrow> chat_state" where
  "handle_join s u now =
     s\<lparr>current_user := Some u,
       messages := append_message (messages s) (welcome_message u now)\<rparr>"

definition mount_chat_room :: "chat_state \<Rightarrow> chat_state" where
  "mount_chat_room s = s\<lparr>mount := Suc (mount s), input_text := [], translating := {}\<rparr>"

definition handle_send_message :: "chat_state \<Rightarrow> string \<Rightarrow> string \<Rightarrow> int \<Rightarrow> chat_state" where
  "handle_send_message s text rand now =
     (case current_user s of
        None \<Rightarrow> s
      | Some u \<Rightarrow>
          s\<lparr>messages := append_message (messages s) (new_message u text rand now),
            pending_bots := (if length (messages s) = 5 then Suc (pending_bots s)
                             else pending_bots s)\<rparr>)"

definition bot_fire :: "chat_state \<Rightarrow> int \<Rightarrow> chat_state" where
  "bot_fire s now =
     (if pending_bots s = 0 then s
      else s\<lparr>messages := append_message (messages s) (bot_message now),
             pending_bots := pending_bots s - 1\<rparr>)"

definition handle_update_message :: "chat_state \<Rightarrow> message \<Rightarrow> chat_state" where
  "handle_update_message s updated = s\<lparr>messages := update_message (messages s) updated\<rparr>"

definition logout :: "chat_state \<Rightarrow> chat_state" where
  "logout s =
     s\<lparr>current_user := None, translating := {},
       join_nickname := [], join_lang := join_default_language\<rparr>"

definition start_translation :: "user \<Rightarrow> chat_state \<Rightarrow> message \<Rightarrow> chat_state" where
  "start_translation u s m =
     s\<lparr>translating := insert (msg_id m) (translating s),
       in_flight := in_flight s @ [\<lparr>rq_msg = m, rq_lang = user_language u, rq_mount = mount s\<rparr>],
       translator_calls := translator_calls s @ [(m, user_language u)]\<rparr>"

definition bubble_effect :: "user \<Rightarrow> chat_state \<Rightarrow> message \<Rightarrow> chat_state" where
  "bubble_effect u s m =
     (if effect_starts m u (msg_id m \<in> translating s) then start_translation u s m else s)"

definition run_effects :: "chat_state \<Rightarrow> chat_state" where
  "run_effects s =
     (case current_user s of
        None \<Rightarrow> s
      | Some u \<Rightarrow> foldl (bubble_effect u) s (messages s))"

definition request_live :: "chat_state \<Rightarrow> request \<Rightarrow> bool" where
  "request_live s r \<longleftrightarrow> current_user s \<noteq> None \<and> rq_mount r = mount s"

definition complete_translation :: "chat_state \<Rightarrow> nat \<Rightarrow> provider_reply \<Rightarrow> chat_state" where
  "complete_translation s i reply =
     (if i < length (in_flight s) then
        (let r = in_flight s ! i;
             translated = translate_result reply (msg_text (rq_msg r));
             s' = handle_update_message s (translated_message (rq_msg r) (rq_lang r) translated)
         in s'\<lparr>in_flight := remove_nth i (in_flight s),
               translating := (if request_live s r then translating s - {msg_id (rq_msg r)}
                               else translating s)\<rparr>)
      else s)"

fun handle_event :: "chat_state \<Rightarrow> event \<Rightarrow> chat_state" where
  "handle_event s (Join_Type v) =
     (if current_user s = None then s\<lparr>join_nickname := v\<rparr> else s)"
| "handle_event s (Join_Select i) =
     (if current_user s = None \<and> i < length supported_languages
      then s\<lparr>join_lang := supported_languages ! i\<rparr> else s)"
| "handle_event s (Join_Submit rand now) =
     (if current_user s = None then
        (case join_submit (join_nickname s) (join_lang s) rand of
           None \<Rightarrow> s
         | Some u \<Rightarrow> mount_chat_room (handle_join s u now))
      else s)"
| "handle_event s (Chat_Type v) =
     (if current_user s \<noteq> None then s\<lparr>input_text := v\<rparr> else s)"
| "handle_event s (Chat_Submit rand now) =
     (if current_user s \<noteq> None then
        (case chat_submit (input_text s) of
           None \<Rightarrow> s
         | Some t \<Rightarrow> (handle_send_message s t rand now)\<lparr>input_text := []\<rparr>)
      else s)"
| "handle_event s Logout = (if current_user s \<noteq> None then logout s else s)"
| "handle_event s (Bot_Timer now) = bot_fire s now"
| "handle_event s (Translation_Done i reply) = complete_translation s i reply"

definition app_step :: "chat_state \<Rightarrow> event \<Rightarrow> chat_state" where
  "app_step s e = run_effects (handle_event s e)"

fun app_run :: "chat_state \<Rightarrow> event list \<Rightarrow> chat_state" where
  "app_run s [] = s"
| "app_run s (e # es) = app_run (app_step s e) es"

inductive app_reachable :: "chat_state \<Rightarrow> bool" where
  init: "app_reachable init_state"
| step: "app_reachable s \<Longrightarrow> app_reachable (app_step s e)"

text \<open>
  The invariants. \<open>live_ids\<close> lists the message ids of the requests whose bubble is
  still mounted; \<open>dedup_inv\<close> says that these are exactly the bubbles marked
  translating, with no id twice, all in the signed-in user's language.
  \<open>request_ok\<close> says that a request never concerns a system message or a
  message already in the target language. \<open>msg_ok\<close> says that a message has a
  non-empty text and only non-empty cached translations. A bot message is one whose id
  has the \<open>bot-\<close> prefix that only the timer callback writes.
\<close>

definition live_ids :: "chat_state \<Rightarrow> ident list" where
  "live_ids s = map (\<lambda>r. msg_id (rq_msg r)) (filter (request_live s) (in_flight s))"

definition dedup_inv :: "chat_state \<Rightarrow> bool" where
  "dedup_inv s \<longleftrightarrow>
     set (live_ids s) = translating s \<and> distinct (live_ids s) \<and>
     list_all (\<lambda>r. rq_mount r \<le> mount s) (in_flight s) \<and>
     list_all (\<lambda>r. request_live s r \<longrightarrow> Some (rq_lang r) = map_option user_language (current_user s))
       (in_flight s)"

definition request_ok :: "message \<Rightarrow> lang_code \<Rightarrow> bool" where
  "request_ok m language \<longleftrightarrow> \<not> is_system m \<and> msg_original_language m \<noteq> language"

definition msg_ok :: "message \<Rightarrow> bool" where
  "msg_ok m \<longleftrightarrow> js_truthy (msg_text m) \<and> (\<forall>v \<in> ran (msg_translations m). js_truthy v)"

definition text_inv :: "chat_state \<Rightarrow> bool" where
  "text_inv s \<longleftrightarrow> list_all msg_ok (messages s) \<and> list_all (\<lambda>r. msg_ok (rq_msg r)) (in_flight s)"

definition calls_inv :: "chat_state \<Rightarrow> bool" where
  "calls_inv s \<longleftrightarrow>
     list_all (\<lambda>(m, l). request_ok m l) (translator_calls s) \<and>
     list_all (\<lambda>r. request_ok (rq_msg r) (rq_lang r)) (in_flight s)"

definition is_bot_id :: "ident \<Rightarrow> bool" where
  "is_bot_id i \<longleftrightarrow> take 4 i = ''bot-''"

definition bot_count :: "chat_state \<Rightarrow> nat" where
  "bot_count s = length (filter is_bot_id (msg_ids (messages s)))"

definition bot_inv :: "chat_state \<Rightarrow> bool" where
  "bot_inv s \<longleftrightarrow> pending_bots s + bot_count s \<le> (if length (messages s) \<le> 5 then 0 else 1)"

text \<open>
  A run used by the witnesses: user A (English) joins and says hello, leaves, and user B
  (French) joins; B's bubble for A's message then has a translation pending.
\<close>

abbreviation viewer_switch_run :: "event list" where
  "viewer_switch_run \<equiv>
     [Join_Type ''A'', Join_Select 1, Join_Submit ''ua'' 1000, Chat_Type ''hello'',
      Chat_Submit ''m1'' 1001, Logout, Join_Type ''B'', Join_Select 3, Join_Submit ''ub'' 1002]"

section \<open>Frame lemmas of the effect pass\<close>


lemma bubble_effect_frame [simp]:
  "messages (bubble_effect u s m) = messages s"
  "current_user (bubble_effect u s m) = current_user s"
  "mount (bubble_effect u s m) = mount s"
  "pending_bots (bubble_effect u s m) = pending_bots s"
  "join_nickname (bubble_effect u s m) = join_nickname s"
  "join_lang (bubble_effect u s m) = join_lang s"
  "input_text (bubble_effect u s m) = input_text s"
  by (simp_all add: bubble_effect_def start_translation_def)

lemma foldl_bubble_effect_frame:
  "messages (foldl (bubble_effect u) s ms) = messages s \<and>
   current_user (foldl (bubble_effect u) s ms) = current_user s \<and>
   mount (foldl (bubble_effect u) s ms) = mount s \<and>
   pending_bots (foldl (bubble_effect u) s ms) = pending_bots s \<and>
   join_nickname (foldl (bubble_effect u) s ms) = join_nickname s \<and>
   join_lang (foldl (bubble_effect u) s ms) = join_lang s \<and>
   input_text (foldl (bubble_effect u) s ms) = input_text s"
  by (induction ms arbitrary: s) simp_all

lemma run_effects_frame [simp]:
  "messages (run_effects s) = messages s"
  "current_user (run_effects s) = current_user s"
  "mount (run_effects s) = mount s"
  "pending_bots (run_effects s) = pending_bots s"
  "join_nickname (run_effects s) = join_nickname s"
  "join_lang (run_effects s) = join_lang s"
  "input_text (run_effects s) = input_text s"
  by (simp_all add: run_effects_def foldl_bubble_effect_frame split: option.splits)

lemma run_effects_invariant:
  assumes "\<And>u s m. P s \<Longrightarrow> current_user s = Some u \<Longrightarrow> m \<in> set (messages s) \<Longrightarrow>
             P (bubble_effect u s m)"
    and "P s"
  shows "P (run_effects s)"
proof (cases "current_user s")
  case None
  with assms(2) show ?thesis by (simp add: run_effects_def)
next
  case (Some u)
  have "P (foldl (bubble_effect u) s (messages s)) \<and>
        current_user (foldl (bubble_effect u) s (messages s)) = Some u \<and>
        messages (foldl (bubble_effect u) s (messages s)) = messages s"
    by (rule foldl_invariant [where P = "\<lambda>t. P t \<and> current_user t = Some u \<and> messages t = messages s"])
       (use assms Some in auto)
  with Some show ?thesis by (simp add: run_effects_def)
qed

lemma request_live_fun: "request_live s = (\<lambda>r. current_user s \<noteq> None \<and> rq_mount r = mount s)"
  by (simp add: request_live_def fun_eq_iff)

lemma request_live_eq:
  "current_user s' = current_user s \<Longrightarrow> mount s' = mount s \<Longrightarrow> request_live s' = request_live s"
  by (simp add: request_live_def fun_eq_iff)

section \<open>What answering a request does\<close>

lemma complete_translation_hit:
  assumes "i < length (in_flight s)"
  shows "messages (complete_translation s i reply) =
           update_message (messages s) (translated_message (rq_msg (in_flight s ! i)) (rq_lang (in_flight s ! i))
             (translate_result reply (msg_text (rq_msg (in_flight s ! i)))))"
    and "in_flight (complete_translation s i reply) = remove_nth i (in_flight s)"
    and "translating (complete_translation s i reply) =
           (if request_live s (in_flight s ! i) then translating s - {msg_id (rq_msg (in_flight s ! i))}
            else translating s)"
  using assms by (simp_all add: complete_translation_def handle_update_message_def Let_def)

lemma complete_translation_keeps:
  "current_user (complete_translation s i reply) = current_user s \<and>
   mount (complete_translation s i reply) = mount s"
  by (simp add: complete_translation_def handle_update_message_def Let_def)

text \<open>After an answer, a message of the log is the written-back message or an old
  message with another id.\<close>

lemma complete_translation_cases:
  assumes "i < length (in_flight s)" and "m \<in> set (messages (complete_translation s i reply))"
  shows "m = translated_message (rq_msg (in_flight s ! i)) (rq_lang (in_flight s ! i))
               (translate_result reply (msg_text (rq_msg (in_flight s ! i)))) \<or>
         (m \<in> set (messages s) \<and> msg_id m \<noteq> msg_id (rq_msg (in_flight s ! i)))"
  using assms(2) unfolding complete_translation_hit(1) [OF assms(1)]
  by (auto dest: update_message_cases)

section \<open>At most one pending translation per bubble\<close>

lemma dedup_inv_cong:
  "in_flight s' = in_flight s \<Longrightarrow> translating s' = translating s \<Longrightarrow>
   current_user s' = current_user s \<Longrightarrow> mount s' = mount s \<Longrightarrow> dedup_inv s' = dedup_inv s"
  by (simp add: dedup_inv_def live_ids_def request_live_fun)

lemma dedup_inv_frame:
  "dedup_inv s \<Longrightarrow> in_flight s' = in_flight s \<Longrightarrow> translating s' = translating s \<Longrightarrow>
   current_user s' = current_user s \<Longrightarrow> mount s' = mount s \<Longrightarrow> dedup_inv s'"
  using dedup_inv_cong by blast

lemma dedup_inv_bubble_effect:
  assumes "dedup_inv s" and "current_user s = Some u"
  shows "dedup_inv (bubble_effect u s m)"
proof (cases "effect_starts m u (msg_id m \<in> translating s)")
  case True
  let ?s' = "start_translation u s m"
  have live: "request_live ?s' = request_live s"
    by (rule request_live_eq) (simp_all add: start_translation_def)
  have "live_ids ?s' = live_ids s @ [msg_id m]"
    using assms(2) by (simp add: live_ids_def start_translation_def request_live_fun)
  with True assms show ?thesis
    by (auto simp: bubble_effect_def dedup_inv_def start_translation_def effect_starts_def
        request_live_fun)
next
  case False
  with assms(1) show ?thesis by (simp add: bubble_effect_def)
qed

lemma dedup_inv_run_effects: "dedup_inv s \<Longrightarrow> dedup_inv (run_effects s)"
  by (rule run_effects_invariant) (erule (1) dedup_inv_bubble_effect)

lemma dedup_inv_join:
  assumes "dedup_inv s"
  shows "dedup_inv (mount_chat_room (handle_join s u now))"
proof -
  let ?s' = "mount_chat_room (handle_join s u now)"
  from assms have "list_all (\<lambda>r. rq_mount r \<le> mount s) (in_flight s)"
    by (simp add: dedup_inv_def)
  then have "filter (request_live ?s') (in_flight s) = []"
    by (auto simp: request_live_def mount_chat_room_def handle_join_def filter_empty_conv list_all_iff)
  then show ?thesis
    using assms
    by (auto simp: dedup_inv_def live_ids_def mount_chat_room_def handle_join_def list_all_iff
        request_live_fun)
qed

lemma dedup_inv_logout:
  assumes "dedup_inv s"
  shows "dedup_inv (logout s)"
  using assms by (simp add: dedup_inv_def live_ids_def logout_def request_live_fun list_all_iff)

lemma dedup_inv_complete:
  assumes "dedup_inv s"
  shows "dedup_inv (complete_translation s i reply)"
proof (cases "i < length (in_flight s)")
  case True
  let ?r = "in_flight s ! i"
  let ?s' = "complete_translation s i reply"
  have live: "request_live ?s' = request_live s"
    by (rule request_live_eq) (simp_all add: complete_translation_def handle_update_message_def Let_def)
  have fl: "in_flight ?s' = remove_nth i (in_flight s)"
    using True by (simp add: complete_translation_def handle_update_message_def Let_def)
  have sub: "set (in_flight ?s') \<subseteq> set (in_flight s)"
    unfolding fl by (rule set_remove_nth_subset)
  have other: "list_all (\<lambda>r. rq_mount r \<le> mount ?s') (in_flight ?s') \<and>
     list_all (\<lambda>r. request_live ?s' r \<longrightarrow> Some (rq_lang r) = map_option user_language (current_user ?s'))
       (in_flight ?s')"
    using assms sub
    by (auto simp: dedup_inv_def list_all_iff request_live_fun complete_translation_def
        handle_update_message_def Let_def)
  show ?thesis
  proof (cases "request_live s ?r")
    case False
    have "live_ids ?s' = live_ids s"
      using filter_remove_nth_skip [OF True, of "request_live s"] False
      by (simp add: live_ids_def live fl)
    moreover have "translating ?s' = translating s"
      using True False by (simp add: complete_translation_def handle_update_message_def Let_def)
    ultimately show ?thesis using assms other by (simp add: dedup_inv_def)
  next
    case live_r: True
    from assms have d: "distinct (map (\<lambda>r. msg_id (rq_msg r)) (filter (request_live s) (in_flight s)))"
      by (simp add: dedup_inv_def live_ids_def)
    note h = filter_remove_nth_hit [OF True live_r d]
    have "translating ?s' = translating s - {msg_id (rq_msg ?r)}"
      using True live_r by (simp add: complete_translation_def handle_update_message_def Let_def)
    with h assms other show ?thesis
      by (simp add: dedup_inv_def live_ids_def live fl)
  qed
next
  case False
  with assms show ?thesis by (simp add: complete_translation_def)
qed

lemma dedup_inv_handle_event:
  assumes "dedup_inv s"
  shows "dedup_inv (handle_event s e)"
proof (cases e)
  case (Join_Submit rand now)
  have "dedup_inv (mount_chat_room (handle_join s u now))" for u
    using assms by (rule dedup_inv_join)
  with Join_Submit assms show ?thesis by (simp split: option.splits)
next
  case (Chat_Submit rand now)
  have "dedup_inv (handle_send_message s t rand now\<lparr>input_text := []\<rparr>)" for t
    by (rule dedup_inv_frame [OF assms]) (simp_all add: handle_send_message_def split: option.splits)
  with Chat_Submit assms show ?thesis by (simp split: option.splits)
next
  case Logout
  with assms show ?thesis by (simp add: dedup_inv_logout)
next
  case (Bot_Timer now)
  have "dedup_inv (bot_fire s now)"
    by (rule dedup_inv_frame [OF assms]) (simp_all add: bot_fire_def)
  with Bot_Timer show ?thesis by simp
next
  case (Translation_Done i reply)
  with assms show ?thesis by (simp add: dedup_inv_complete)
next
  case (Join_Type v)
  have "dedup_inv (s\<lparr>join_nickname := v\<rparr>)"
    by (rule dedup_inv_frame [OF assms]) simp_all
  with Join_Type assms show ?thesis by simp
next
  case (Join_Select i)
  have "dedup_inv (s\<lparr>join_lang := l\<rparr>)" for l
    by (rule dedup_inv_frame [OF assms]) simp_all
  with Join_Select assms show ?thesis by simp
next
  case (Chat_Type v)
  have "dedup_inv (s\<lparr>input_text := v\<rparr>)"
    by (rule dedup_inv_frame [OF assms]) simp_all
  with Chat_Type assms show ?thesis by simp
qed

lemma dedup_inv_app_step: "dedup_inv s \<Longrightarrow> dedup_inv (app_step s e)"
  unfolding app_step_def by (intro dedup_inv_run_effects dedup_inv_handle_event)

lemma dedup_inv_init: "dedup_inv init_state"
  by (simp add: dedup_inv_def live_ids_def init_state_def)

lemma reachable_dedup_inv: "app_reachable s \<Longrightarrow> dedup_inv s"
  by (induction rule: app_reachable.induct) (auto intro: dedup_inv_init dedup_inv_app_step)

lemma app_reachable_run: "app_reachable s \<Longrightarrow> app_reachable (app_run s es)"
proof (induction es arbitrary: s)
  case Nil
  then show ?case by simp
next
  case (Cons e es)
  then show ?case by (simp add: app_reachable.step)
qed

text \<open>
  Claim C1. Per viewer session, at most one translation is pending per message and
  language: in every reachable state the requests whose bubble is still mounted concern
  pairwise distinct messages, all in the signed-in user's language. This is the
  \<open>isTranslating\<close> guard of \<open>MessageBubble\<close> at work; the witness is the
  state of a run where such a request is pending.
\<close>

theorem no_duplicate_pending_translation:
  assumes "app_reachable s"
  shows "distinct (map (\<lambda>r. (msg_id (rq_msg r), rq_lang r)) (filter (request_live s) (in_flight s))) \<and>
         (\<forall>r \<in> set (in_flight s). request_live s r \<longrightarrow>
            Some (rq_lang r) = map_option user_language (current_user s))"
proof -
  from assms have inv: "dedup_inv s" by (rule reachable_dedup_inv)
  then have "distinct (map (\<lambda>r. msg_id (rq_msg r)) (filter (request_live s) (in_flight s)))"
    by (simp add: dedup_inv_def live_ids_def)
  then have "distinct (map (\<lambda>r. (msg_id (rq_msg r), rq_lang r)) (filter (request_live s) (in_flight s)))"
    by (rule distinct_map_pair)
  moreover from inv have "\<forall>r \<in> set (in_flight s). request_live s r \<longrightarrow>
            Some (rq_lang r) = map_option user_language (current_user s)"
    by (simp add: dedup_inv_def list_all_iff)
  ultimately show ?thesis ..
qed

theorem no_duplicate_pending_translation_witness:
  "app_reachable (app_run init_state viewer_switch_run) \<and>
   distinct (map (\<lambda>r. (msg_id (rq_msg r), rq_lang r))
     (filter (request_live (app_run init_state viewer_switch_run))
        (in_flight (app_run init_state viewer_switch_run))))"
proof -
  have h: "app_reachable (app_run init_state viewer_switch_run)"
    by (rule app_reachable_run) (rule app_reachable.init)
  show ?thesis using h no_duplicate_pending_translation [OF h, THEN conjunct1] by (rule conjI)
qed

section \<open>The translator is only called for foreign, non-system messages\<close>

lemma calls_inv_frame:
  "calls_inv s \<Longrightarrow> translator_calls s' = translator_calls s \<Longrightarrow>
   set (in_flight s') \<subseteq> set (in_flight s) \<Longrightarrow> calls_inv s'"
  by (auto simp: calls_inv_def list_all_iff)

lemma calls_inv_bubble_effect:
  "calls_inv s \<Longrightarrow> calls_inv (bubble_effect u s m)"
  by (auto simp: calls_inv_def bubble_effect_def start_translation_def effect_starts_def
      needs_translation_def request_ok_def)

lemma complete_translation_frame:
  "translator_calls (complete_translation s i reply) = translator_calls s \<and>
   set (in_flight (complete_translation s i reply)) \<subseteq> set (in_flight s) \<and>
   current_user (complete_translation s i reply) = current_user s \<and>
   pending_bots (complete_translation s i reply) = pending_bots s"
  using set_remove_nth_subset [of i "in_flight s"]
  by (simp add: complete_translation_def handle_update_message_def Let_def)

lemma calls_inv_handle_event:
  assumes "calls_inv s"
  shows "calls_inv (handle_event s e)"
proof (cases e)
  case (Translation_Done i reply)
  with assms complete_translation_frame show ?thesis
    by (simp add: calls_inv_frame [OF assms])
qed (use assms in \<open>auto intro: calls_inv_frame [OF assms] split: option.splits
       simp: mount_chat_room_def handle_join_def handle_send_message_def bot_fire_def logout_def\<close>)

lemma calls_inv_app_step: "calls_inv s \<Longrightarrow> calls_inv (app_step s e)"
  unfolding app_step_def
  by (rule run_effects_invariant [where P = calls_inv])
     (auto intro: calls_inv_bubble_effect calls_inv_handle_event)

lemma reachable_calls_inv: "app_reachable s \<Longrightarrow> calls_inv s"
proof (induction rule: app_reachable.induct)
  case init
  show ?case by (simp add: calls_inv_def init_state_def)
next
  case (step s e)
  from step.IH show ?case by (rule calls_inv_app_step)
qed

text \<open>
  Claim C2. In every reachable state, every call the application has made to
  \<open>translateText\<close> was for a message that is not a system message and into a
  language other than the message's original language.
\<close>

theorem translator_never_called_for_system_or_same_language:
  assumes "app_reachable s" and "(m, l) \<in> set (translator_calls s)"
  shows "\<not> is_system m \<and> msg_original_language m \<noteq> l"
  using reachable_calls_inv [OF assms(1)] assms(2)
  by (auto simp: calls_inv_def list_all_iff request_ok_def)

section \<open>Texts and cached translations are never empty\<close>

lemma ka_joined_suffix_ne: "ka_joined_suffix \<noteq> []"
  by (simp add: ka_joined_suffix_def utf8_def)

lemma msg_ok_welcome: "msg_ok (welcome_message u now)"
  by (simp add: msg_ok_def welcome_message_def js_truthy_def ka_joined_suffix_ne)

lemma msg_ok_new: "js_truthy t \<Longrightarrow> msg_ok (new_message u t rand now)"
  by (simp add: msg_ok_def new_message_def)

lemma msg_ok_bot: "msg_ok (bot_message now)"
  by (simp add: msg_ok_def bot_message_def js_truthy_def)

lemma msg_ok_translated:
  "msg_ok m \<Longrightarrow> js_truthy t \<Longrightarrow> msg_ok (translated_message m l t)"
  by (auto simp: msg_ok_def ran_def)

lemma list_all_update_message:
  "list_all P ms \<Longrightarrow> P u \<Longrightarrow> list_all P (update_message ms u)"
  by (auto simp: list_all_iff dest: update_message_cases)

lemma text_inv_frame:
  "text_inv s \<Longrightarrow> messages s' = messages s \<Longrightarrow> set (in_flight s') \<subseteq> set (in_flight s) \<Longrightarrow> text_inv s'"
  by (auto simp: text_inv_def list_all_iff)

lemma text_inv_bubble_effect:
  "text_inv s \<Longrightarrow> m \<in> set (messages s) \<Longrightarrow> text_inv (bubble_effect u s m)"
  by (auto simp: text_inv_def bubble_effect_def start_translation_def list_all_iff)

lemma text_inv_complete:
  assumes "text_inv s"
  shows "text_inv (complete_translation s i reply)"
proof (cases "i < length (in_flight s)")
  case True
  let ?r = "in_flight s ! i"
  from assms True have r: "msg_ok (rq_msg ?r)"
    by (simp add: text_inv_def list_all_iff)
  then have "js_truthy (translate_result reply (msg_text (rq_msg ?r)))"
    by (simp add: msg_ok_def translate_result_truthy)
  with r have ok: "msg_ok (translated_message (rq_msg ?r) (rq_lang ?r)
                   (translate_result reply (msg_text (rq_msg ?r))))"
    by (rule msg_ok_translated)
  from assms have "list_all msg_ok (messages s)" by (simp add: text_inv_def)
  with ok have "list_all msg_ok (messages (complete_translation s i reply))"
    using True by (simp add: complete_translation_def handle_update_message_def Let_def
      list_all_update_message)
  moreover have "list_all (\<lambda>r. msg_ok (rq_msg r)) (in_flight (complete_translation s i reply))"
    using assms complete_translation_frame [of s i reply]
    by (auto simp: text_inv_def list_all_iff)
  ultimately show ?thesis by (simp add: text_inv_def)
next
  case False
  with assms show ?thesis by (simp add: complete_translation_def)
qed

lemma text_inv_handle_event:
  assumes "text_inv s"
  shows "text_inv (handle_event s e)"
proof (cases e)
  case (Join_Submit rand now)
  have "text_inv (mount_chat_room (handle_join s u now))" for u
    using assms msg_ok_welcome
    by (simp add: text_inv_def mount_chat_room_def handle_join_def append_message_def)
  with Join_Submit assms show ?thesis by (simp split: option.splits)
next
  case (Chat_Submit rand now)
  have "text_inv (handle_send_message s t rand now\<lparr>input_text := []\<rparr>)"
    if "chat_submit (input_text s) = Some t" for t
    using assms msg_ok_new [of t] chat_submit_Some [OF that]
    by (simp add: text_inv_def handle_send_message_def append_message_def split: option.splits)
  with Chat_Submit assms show ?thesis by (simp split: option.splits)
next
  case (Bot_Timer now)
  with assms msg_ok_bot show ?thesis
    by (simp add: text_inv_def bot_fire_def append_message_def)
next
  case (Translation_Done i reply)
  with assms show ?thesis by (simp add: text_inv_complete)
qed (use assms in \<open>auto simp: text_inv_def logout_def\<close>)

lemma text_inv_app_step: "text_inv s \<Longrightarrow> text_inv (app_step s e)"
  unfolding app_step_def
  by (rule run_effects_invariant [where P = text_inv])
     (auto intro: text_inv_bubble_effect text_inv_handle_event)

lemma reachable_text_inv: "app_reachable s \<Longrightarrow> text_inv s"
proof (induction rule: app_reachable.induct)
  case init
  show ?case by (simp add: text_inv_def init_state_def)
next
  case (step s e)
  from step.IH show ?case by (rule text_inv_app_step)
qed

text \<open>
  Claim C3. When the provider answers a pending request (whatever the answer,
  failure included), every message with that id in the resulting state caches a
  non-empty text for the request's language, so no bubble of a viewer in that language
  needs, or starts, another translation of it.
\<close>

theorem completion_fills_cache:
  assumes "app_reachable s" and "i < length (in_flight s)"
    and "m \<in> set (messages (app_step s (Translation_Done i reply)))"
    and "msg_id m = msg_id (rq_msg (in_flight s ! i))"
  shows "js_opt_truthy (msg_translations m (rq_lang (in_flight s ! i))) \<and>
         (\<forall>u. user_language u = rq_lang (in_flight s ! i) \<longrightarrow> \<not> needs_translation m u)"
proof -
  let ?r = "in_flight s ! i"
  let ?upd = "translated_message (rq_msg ?r) (rq_lang ?r) (translate_result reply (msg_text (rq_msg ?r)))"
  from reachable_text_inv [OF assms(1)] assms(2) have "msg_ok (rq_msg ?r)"
    by (simp add: text_inv_def list_all_iff)
  then have t: "js_truthy (translate_result reply (msg_text (rq_msg ?r)))"
    by (simp add: msg_ok_def translate_result_truthy)
  have "messages (app_step s (Translation_Done i reply)) = update_message (messages s) ?upd"
    using assms(2) by (simp add: app_step_def complete_translation_def handle_update_message_def Let_def)
  with assms(3,4) have "m = ?upd"
    using update_message_cases by fastforce
  with t show ?thesis
    by (simp add: js_simps needs_translation_def)
qed

section \<open>Evaluating runs\<close>

lemmas app_eval_defs = app_step_def run_effects_def bubble_effect_def effect_starts_def
  needs_translation_def is_system_def handle_join_def mount_chat_room_def
  handle_send_message_def bot_fire_def handle_update_message_def logout_def
  start_translation_def request_live_def remove_nth_def complete_translation_def
  init_state_def join_submit_def chat_submit_def append_message_def update_message_def
  welcome_message_def new_message_def bot_message_def translated_message_def translate_result_def
  join_default_language_def supported_languages_def js_trim_def js_ws_def js_truthy_def
  js_opt_truthy_def js_opt_or_def js_or_def displayed_text_def Let_def

lemma viewer_switch_reachable: "app_reachable (app_run init_state viewer_switch_run)"
  by (rule app_reachable_run) (rule app_reachable.init)

theorem translator_calls_witness:
  "app_reachable (app_run init_state viewer_switch_run) \<and>
   (rq_msg (hd (in_flight (app_run init_state viewer_switch_run))), ''fr'')
      \<in> set (translator_calls (app_run init_state viewer_switch_run)) \<and>
   \<not> is_system (rq_msg (hd (in_flight (app_run init_state viewer_switch_run)))) \<and>
   msg_original_language (rq_msg (hd (in_flight (app_run init_state viewer_switch_run)))) \<noteq> ''fr''"
proof -
  have h2: "(rq_msg (hd (in_flight (app_run init_state viewer_switch_run))), ''fr'')
      \<in> set (translator_calls (app_run init_state viewer_switch_run))"
    by (simp add: app_eval_defs)
  show ?thesis
    by (rule conjI [OF viewer_switch_reachable conjI [OF h2
          translator_never_called_for_system_or_same_language [OF viewer_switch_reachable h2]]])
qed

theorem completion_fills_cache_witness:
  "app_reachable (app_run init_state viewer_switch_run) \<and>
   0 < length (in_flight (app_run init_state viewer_switch_run)) \<and>
   messages (app_step (app_run init_state viewer_switch_run) (Translation_Done 0 Reply_Throws)) ! 1
     \<in> set (messages (app_step (app_run init_state viewer_switch_run) (Translation_Done 0 Reply_Throws))) \<and>
   msg_id (messages (app_step (app_run init_state viewer_switch_run) (Translation_Done 0 Reply_Throws)) ! 1) =
     msg_id (rq_msg (in_flight (app_run init_state viewer_switch_run) ! 0)) \<and>
   js_opt_truthy (msg_translations (messages (app_step (app_run init_state viewer_switch_run)
       (Translation_Done 0 Reply_Throws)) ! 1) (rq_lang (in_flight (app_run init_state viewer_switch_run) ! 0))) \<and>
   \<not> needs_translation (messages (app_step (app_run init_state viewer_switch_run)
        (Translation_Done 0 Reply_Throws)) ! 1)
      (the (current_user (app_run init_state viewer_switch_run)))"
proof -
  have h2: "0 < length (in_flight (app_run init_state viewer_switch_run))"
    by (simp add: app_eval_defs)
  have h3: "messages (app_step (app_run init_state viewer_switch_run) (Translation_Done 0 Reply_Throws)) ! 1
     \<in> set (messages (app_step (app_run init_state viewer_switch_run) (Translation_Done 0 Reply_Throws)))"
    by (rule nth_mem) (simp add: app_eval_defs)
  have h4: "msg_id (messages (app_step (app_run init_state viewer_switch_run) (Translation_Done 0 Reply_Throws)) ! 1) =
     msg_id (rq_msg (in_flight (app_run init_state viewer_switch_run) ! 0))"
    by (simp add: app_eval_defs)
  have h5: "user_language (the (current_user (app_run init_state viewer_switch_run))) =
      rq_lang (in_flight (app_run init_state viewer_switch_run) ! 0)"
    by (simp add: app_eval_defs)
  note c = completion_fills_cache [OF viewer_switch_reachable h2 h3 h4]
  note c' = c [THEN conjunct2, rule_format, OF h5]
  show ?thesis
    by (rule conjI [OF viewer_switch_reachable conjI [OF h2 conjI [OF h3 conjI [OF h4
          conjI [OF c [THEN conjunct1] c']]]]])
qed

section \<open>The simulated bot replies at most once\<close>

lemma is_bot_id_welcome [simp]: "\<not> is_bot_id (msg_id (welcome_message u now))"
  by (simp add: is_bot_id_def welcome_message_def)

lemma is_bot_id_new [simp]: "\<not> is_bot_id (msg_id (new_message u t rand now))"
  by (simp add: is_bot_id_def new_message_def)

lemma is_bot_id_bot [simp]: "is_bot_id (msg_id (bot_message now))"
  by (simp add: is_bot_id_def bot_message_def)

lemma bot_inv_cong:
  "msg_ids (messages s') = msg_ids (messages s) \<Longrightarrow> pending_bots s' = pending_bots s \<Longrightarrow>
   bot_inv s' = bot_inv s"
  by (simp add: bot_inv_def bot_count_def length_map [of msg_id, symmetric] msg_ids_def [symmetric])

lemma bot_inv_append_other:
  "bot_inv s \<Longrightarrow> \<not> is_bot_id (msg_id m) \<Longrightarrow>
   bot_inv (s\<lparr>messages := append_message (messages s) m\<rparr>)"
  by (auto simp: bot_inv_def bot_count_def split: if_splits)

lemma bot_inv_send:
  assumes "bot_inv s"
  shows "bot_inv (handle_send_message s t rand now)"
proof (cases "current_user s")
  case None
  with assms show ?thesis by (simp add: handle_send_message_def)
next
  case (Some u)
  with assms show ?thesis
    by (auto simp: handle_send_message_def bot_inv_def bot_count_def
        split: if_splits)
qed

lemma bot_inv_fire:
  assumes "bot_inv s"
  shows "bot_inv (bot_fire s now)"
  using assms
  by (auto simp: bot_fire_def bot_inv_def bot_count_def split: if_splits)

lemma bot_inv_frame:
  "bot_inv s \<Longrightarrow> msg_ids (messages s') = msg_ids (messages s) \<Longrightarrow>
   pending_bots s' = pending_bots s \<Longrightarrow> bot_inv s'"
  using bot_inv_cong by blast

lemma bot_inv_handle_event:
  assumes "bot_inv s"
  shows "bot_inv (handle_event s e)"
proof (cases e)
  case (Join_Submit rand now)
  have "bot_inv (mount_chat_room (handle_join s u now))" for u
  proof -
    have "bot_inv (s\<lparr>messages := append_message (messages s) (welcome_message u now)\<rparr>)"
      using assms by (rule bot_inv_append_other) simp
    then show ?thesis
      by (rule bot_inv_frame) (simp_all add: mount_chat_room_def handle_join_def)
  qed
  with Join_Submit assms show ?thesis by (simp split: option.splits)
next
  case (Chat_Submit rand now)
  have "bot_inv (handle_send_message s t rand now\<lparr>input_text := []\<rparr>)" for t
    using bot_inv_send [OF assms, of t rand now] by (rule bot_inv_frame) simp_all
  with Chat_Submit assms show ?thesis by (simp split: option.splits)
next
  case (Bot_Timer now)
  with assms show ?thesis by (simp add: bot_inv_fire)
next
  case (Translation_Done i reply)
  have "msg_ids (messages (complete_translation s i reply)) = msg_ids (messages s)"
    by (simp add: complete_translation_def handle_update_message_def Let_def)
  with complete_translation_frame [of s i reply] assms
  have "bot_inv (complete_translation s i reply)"
    by (auto intro: bot_inv_frame)
  with Translation_Done show ?thesis by simp
next
  case Logout
  have "bot_inv (logout s)" using assms by (rule bot_inv_frame) (simp_all add: logout_def)
  with Logout assms show ?thesis by simp
next
  case (Join_Type v)
  have "bot_inv (s\<lparr>join_nickname := v\<rparr>)" using assms by (rule bot_inv_frame) simp_all
  with Join_Type assms show ?thesis by simp
next
  case (Join_Select i)
  have "bot_inv (s\<lparr>join_lang := l\<rparr>)" for l using assms by (rule bot_inv_frame) simp_all
  with Join_Select assms show ?thesis by simp
next
  case (Chat_Type v)
  have "bot_inv (s\<lparr>input_text := v\<rparr>)" using assms by (rule bot_inv_frame) simp_all
  with Chat_Type assms show ?thesis by simp
qed

lemma bot_inv_app_step: "bot_inv s \<Longrightarrow> bot_inv (app_step s e)"
  unfolding app_step_def by (rule bot_inv_frame [OF bot_inv_handle_event]) simp_all

lemma reachable_bot_inv: "app_reachable s \<Longrightarrow> bot_inv s"
proof (induction rule: app_reachable.induct)
  case init
  show ?case by (simp add: bot_inv_def bot_count_def init_state_def msg_ids_def)
next
  case (step s e)
  from step.IH show ?case by (rule bot_inv_app_step)
qed

text \<open>
  Claim C13. The bot reply is scheduled only by the send that finds exactly five
  messages in the log, so over a whole page session at most one bot reply is pending or
  posted.
\<close>

theorem bot_replies_at_most_once:
  "app_reachable s \<Longrightarrow> pending_bots s + bot_count s \<le> 1"
  using reachable_bot_inv by (fastforce simp: bot_inv_def split: if_splits)

theorem bot_replies_at_most_once_witness:
  "app_reachable (app_run init_state viewer_switch_run) \<and>
   pending_bots (app_run init_state viewer_switch_run) +
     bot_count (app_run init_state viewer_switch_run) \<le> 1"
  using viewer_switch_reachable bot_replies_at_most_once [OF viewer_switch_reachable]
  by (rule conjI)

section \<open>The message log is append-only\<close>

lemma handle_event_log_prefix:
  "\<exists>zs. msg_ids (messages (handle_event s e)) = msg_ids (messages s) @ zs"
proof (cases e)
  case (Join_Submit rand now)
  then show ?thesis
    by (auto simp: mount_chat_room_def handle_join_def split: option.splits)
next
  case (Chat_Submit rand now)
  then show ?thesis
    by (auto simp: handle_send_message_def split: option.splits)
next
  case (Bot_Timer now)
  then show ?thesis by (auto simp: bot_fire_def)
next
  case (Translation_Done i reply)
  then show ?thesis
    by (auto simp: complete_translation_def handle_update_message_def Let_def)
qed (auto simp: logout_def)

text \<open>
  Claim C5. Whatever happens (sends, joins, bot replies, translations resolving in
  any order), the ids of the log only grow at the end: no message is removed or
  reordered.
\<close>

theorem message_log_append_only:
  "\<exists>zs. msg_ids (messages (app_run s es)) = msg_ids (messages s) @ zs"
proof (induction es arbitrary: s)
  case Nil
  show ?case by simp
next
  case (Cons e es)
  obtain zs where "msg_ids (messages (app_step s e)) = msg_ids (messages s) @ zs"
    using handle_event_log_prefix [of s e] by (auto simp: app_step_def)
  moreover obtain ys where "msg_ids (messages (app_run (app_step s e) es)) =
      msg_ids (messages (app_step s e)) @ ys"
    using Cons.IH by blast
  ultimately show ?case by auto
qed

end
