(* ===== verification/Progress.thy ===== *)
theory Progress
  imports App
begin

text \<open>
  Progress of the translation machinery of theory \<open>App\<close>. The effect pass of the
  bubbles (\<open>run_effects\<close>, the \<open>useEffect\<close> of \<open>MessageBubble\<close> run over
  \<open>ChatRoom\<close>'s \<open>messages.map\<close>) saturates: after every event, each message that
  still needs a translation for the signed-in user has its bubble marked translating
  (\<open>saturated\<close>). The pass adds only requests for bubbles that were not marked, at
  most one per message id. From this, answering a pending request decreases the
  measure \<open>2 * stale + live\<close> (\<open>drain_measure\<close>; a stale request belongs to a
  chat pane that has been unmounted, and answering it can make its message need the
  translation again, hence the factor two), and answering the oldest pending request
  \<open>drain_measure\<close> times leaves nothing pending, with every message of the log then
  translated for the signed-in user.
\<close>

definition saturated :: "chat_state \<Rightarrow> bool" where
  "saturated s \<longleftrightarrow>
     (case current_user s of
        None \<Rightarrow> True
      | Some u \<Rightarrow> (\<forall>m \<in> set (messages s). needs_translation m u \<longrightarrow> msg_id m \<in> translating s))"

definition ids_inv :: "chat_state \<Rightarrow> bool" where
  "ids_inv s \<longleftrightarrow> translating s \<subseteq> set (msg_ids (messages s))"

definition live_count :: "chat_state \<Rightarrow> nat" where
  "live_count s = length (filter (request_live s) (in_flight s))"

definition stale_count :: "chat_state \<Rightarrow> nat" where
  "stale_count s = length (filter (\<lambda>r. \<not> request_live s r) (in_flight s))"

definition drain_measure :: "chat_state \<Rightarrow> nat" where
  "drain_measure s = 2 * stale_count s + live_count s"

text \<open>
  The effect pass described declaratively: every message that needs a translation and
  whose bubble is not marked gets marked, and one request (and one call) is issued for
  each, in log order. It is the reference the fold of \<open>run_effects\<close> is compared with.
\<close>

definition effects_spec :: "user \<Rightarrow> chat_state \<Rightarrow> chat_state" where
  "effects_spec u s =
     (let ms = filter (\<lambda>m. needs_translation m u \<and> msg_id m \<notin> translating s) (messages s)
      in s\<lparr>translating := translating s \<union> msg_id ` set ms,
           in_flight := in_flight s @
             map (\<lambda>m. \<lparr>rq_msg = m, rq_lang = user_language u, rq_mount = mount s\<rparr>) ms,
           translator_calls := translator_calls s @ map (\<lambda>m. (m, user_language u)) ms\<rparr>)"

section \<open>What one pass of the effects does\<close>

lemma bubble_effect_marks:
  "translating s \<subseteq> translating (bubble_effect u s m) \<and>
   (needs_translation m u \<longrightarrow> msg_id m \<in> translating (bubble_effect u s m))"
  by (auto simp: bubble_effect_def effect_starts_def start_translation_def)

lemma foldl_bubble_effect_saturates:
  "translating s \<subseteq> translating (foldl (bubble_effect u) s ms) \<and>
   (\<forall>m \<in> set ms. needs_translation m u \<longrightarrow> msg_id m \<in> translating (foldl (bubble_effect u) s ms))"
proof (induction ms arbitrary: s)
  case Nil
  show ?case by simp
next
  case (Cons m ms)
  from Cons.IH [of "bubble_effect u s m"] bubble_effect_marks [of s u m] show ?case by auto
qed

lemma run_effects_saturated: "saturated (run_effects s)"
proof (cases "current_user s")
  case None
  then show ?thesis by (simp add: saturated_def)
next
  case (Some u)
  then have "run_effects s = foldl (bubble_effect u) s (messages s)"
    by (simp add: run_effects_def)
  with Some foldl_bubble_effect_saturates [of s u "messages s"]
    foldl_bubble_effect_frame [of u s "messages s"] show ?thesis
    by (simp add: saturated_def)
qed

lemma reachable_saturated:
  assumes "app_reachable s"
  shows "saturated s"
  using assms
proof (cases rule: app_reachable.cases)
  case init
  then show ?thesis by (simp add: saturated_def init_state_def)
next
  case (step s' e)
  then show ?thesis by (simp add: app_step_def run_effects_saturated)
qed

text \<open>
  The requests one pass adds: in order after the pending ones, for messages of the
  log that need a translation and whose bubble was not marked, one per id, in the
  signed-in user's language and for the mounted pane.
\<close>

lemma foldl_bubble_effect_new:
  "\<exists>rs. in_flight (foldl (bubble_effect u) s ms) = in_flight s @ rs \<and>
     translating (foldl (bubble_effect u) s ms) = translating s \<union> set (map (\<lambda>r. msg_id (rq_msg r)) rs) \<and>
     distinct (map (\<lambda>r. msg_id (rq_msg r)) rs) \<and>
     (\<forall>r \<in> set rs. rq_msg r \<in> set ms \<and> needs_translation (rq_msg r) u \<and>
        msg_id (rq_msg r) \<notin> translating s \<and> rq_mount r = mount s \<and> rq_lang r = user_language u)"
proof (induction ms arbitrary: s)
  case Nil
  show ?case by (rule exI [of _ "[]"]) simp
next
  case (Cons m ms)
  show ?case
  proof (cases "effect_starts m u (msg_id m \<in> translating s)")
    case False
    then have "bubble_effect u s m = s" by (simp add: bubble_effect_def)
    with Cons.IH [of s] show ?thesis by auto
  next
    case True
    let ?s' = "start_translation u s m"
    let ?r = "\<lparr>rq_msg = m, rq_lang = user_language u, rq_mount = mount s\<rparr>"
    have be: "bubble_effect u s m = ?s'" using True by (simp add: bubble_effect_def)
    obtain rs where rs: "in_flight (foldl (bubble_effect u) ?s' ms) = in_flight ?s' @ rs"
      "translating (foldl (bubble_effect u) ?s' ms) = translating ?s' \<union> set (map (\<lambda>r. msg_id (rq_msg r)) rs)"
      "distinct (map (\<lambda>r. msg_id (rq_msg r)) rs)"
      "\<forall>r \<in> set rs. rq_msg r \<in> set ms \<and> needs_translation (rq_msg r) u \<and>
        msg_id (rq_msg r) \<notin> translating ?s' \<and> rq_mount r = mount ?s' \<and> rq_lang r = user_language u"
      using Cons.IH [of ?s'] by blast
    show ?thesis
      using True rs by (intro exI [of _ "?r # rs"])
        (auto simp: be start_translation_def effect_starts_def)
  qed
qed

lemma run_effects_None: "current_user s = None \<Longrightarrow> run_effects s = s"
  by (simp add: run_effects_def)

lemma run_effects_new:
  assumes "current_user s = Some u"
    and "\<forall>m \<in> set (messages s). needs_translation m u \<longrightarrow> msg_id m \<notin> translating s \<longrightarrow> msg_id m \<in> X"
    and "finite X"
  shows "\<exists>rs. in_flight (run_effects s) = in_flight s @ rs \<and> length rs \<le> card X \<and>
           (\<forall>r \<in> set rs. request_live s r)"
proof -
  obtain rs where rs: "in_flight (foldl (bubble_effect u) s (messages s)) = in_flight s @ rs"
    "distinct (map (\<lambda>r. msg_id (rq_msg r)) rs)"
    "\<forall>r \<in> set rs. rq_msg r \<in> set (messages s) \<and> needs_translation (rq_msg r) u \<and>
        msg_id (rq_msg r) \<notin> translating s \<and> rq_mount r = mount s \<and> rq_lang r = user_language u"
    using foldl_bubble_effect_new [of u s "messages s"] by blast
  from rs(3) assms(2) have sub: "set (map (\<lambda>r. msg_id (rq_msg r)) rs) \<subseteq> X" by auto
  have "length (map (\<lambda>r. msg_id (rq_msg r)) rs) \<le> card X"
    using rs(2) sub assms(3) by (rule distinct_length_le_card)
  moreover from rs(3) assms(1) have "\<forall>r \<in> set rs. request_live s r"
    by (simp add: request_live_def)
  ultimately show ?thesis using rs(1) assms(1) by (auto simp: run_effects_def)
qed

lemma foldl_bubble_effect_distinct:
  assumes "distinct (map msg_id ms)"
  shows "foldl (bubble_effect u) t ms =
    (let fs = filter (\<lambda>m. needs_translation m u \<and> msg_id m \<notin> translating t) ms
     in t\<lparr>translating := translating t \<union> msg_id ` set fs,
          in_flight := in_flight t @
            map (\<lambda>m. \<lparr>rq_msg = m, rq_lang = user_language u, rq_mount = mount t\<rparr>) fs,
          translator_calls := translator_calls t @ map (\<lambda>m. (m, user_language u)) fs\<rparr>)"
  using assms
proof (induction ms arbitrary: t)
  case Nil
  then show ?case by simp
next
  case (Cons m ms)
  from Cons.prems have m: "msg_id m \<notin> msg_id ` set ms" and d: "distinct (map msg_id ms)" by auto
  show ?case
  proof (cases "effect_starts m u (msg_id m \<in> translating t)")
    case True
    let ?t' = "start_translation u t m"
    have F: "filter (\<lambda>m'. needs_translation m' u \<and> msg_id m' \<noteq> msg_id m \<and> msg_id m' \<notin> translating t) ms =
          filter (\<lambda>m'. needs_translation m' u \<and> msg_id m' \<notin> translating t) ms"
      using m by (auto simp: image_iff intro!: filter_cong)
    have be: "bubble_effect u t m = ?t'" using True by (simp add: bubble_effect_def)
    have "foldl (bubble_effect u) t (m # ms) = foldl (bubble_effect u) ?t' ms" by (simp add: be)
    also have "\<dots> = (let fs = filter (\<lambda>m'. needs_translation m' u \<and> msg_id m' \<notin> translating ?t') ms
     in ?t'\<lparr>translating := translating ?t' \<union> msg_id ` set fs,
          in_flight := in_flight ?t' @
            map (\<lambda>m. \<lparr>rq_msg = m, rq_lang = user_language u, rq_mount = mount ?t'\<rparr>) fs,
          translator_calls := translator_calls ?t' @ map (\<lambda>m. (m, user_language u)) fs\<rparr>)"
      by (rule Cons.IH [OF d])
    finally show ?thesis
      using True by (simp add: start_translation_def effect_starts_def Let_def F del: set_filter)
  next
    case False
    then have be: "bubble_effect u t m = t" by (simp add: bubble_effect_def)
    have "foldl (bubble_effect u) t (m # ms) = foldl (bubble_effect u) t ms" by (simp add: be)
    also have "\<dots> = (let fs = filter (\<lambda>m. needs_translation m u \<and> msg_id m \<notin> translating t) ms
     in t\<lparr>translating := translating t \<union> msg_id ` set fs,
          in_flight := in_flight t @
            map (\<lambda>m. \<lparr>rq_msg = m, rq_lang = user_language u, rq_mount = mount t\<rparr>) fs,
          translator_calls := translator_calls t @ map (\<lambda>m. (m, user_language u)) fs\<rparr>)"
      by (rule Cons.IH [OF d])
    finally show ?thesis
      using False by (auto simp: effect_starts_def Let_def simp del: set_filter)
  qed
qed

lemma foldl_bubble_effect_calls:
  "\<exists>cs. translator_calls (foldl (bubble_effect u) s ms) = translator_calls s @ cs \<and>
     (\<forall>(m, l) \<in> set cs. m \<in> set ms \<and> needs_translation m u)"
proof (induction ms arbitrary: s)
  case Nil
  show ?case by simp
next
  case (Cons m ms)
  obtain cs where cs: "translator_calls (foldl (bubble_effect u) (bubble_effect u s m) ms) =
      translator_calls (bubble_effect u s m) @ cs"
    and ok: "\<forall>(m', l) \<in> set cs. m' \<in> set ms \<and> needs_translation m' u"
    using Cons.IH [of "bubble_effect u s m"] by blast
  show ?case
  proof (cases "effect_starts m u (msg_id m \<in> translating s)")
    case True
    then have "translator_calls (bubble_effect u s m) = translator_calls s @ [(m, user_language u)]"
      and "needs_translation m u"
      by (simp_all add: bubble_effect_def start_translation_def effect_starts_def)
    with cs ok show ?thesis by (intro exI [of _ "(m, user_language u) # cs"]) auto
  next
    case False
    then have "bubble_effect u s m = s" by (simp add: bubble_effect_def)
    with cs ok show ?thesis by (intro exI [of _ cs]) auto
  qed
qed

section \<open>Counting the pending requests\<close>

lemma in_flight_count: "length (in_flight s) = live_count s + stale_count s"
  by (simp add: live_count_def stale_count_def sum_length_filter_compl)

lemma complete_counts:
  assumes "i < length (in_flight s)"
  shows "live_count (complete_translation s i reply) +
           (if request_live s (in_flight s ! i) then 1 else 0) = live_count s \<and>
         stale_count (complete_translation s i reply) +
           (if request_live s (in_flight s ! i) then 0 else 1) = stale_count s"
proof -
  have live: "request_live (complete_translation s i reply) = request_live s"
    by (rule request_live_eq) (simp_all add: complete_translation_keeps)
  have fl: "in_flight (complete_translation s i reply) = remove_nth i (in_flight s)"
    by (rule complete_translation_hit(2) [OF assms])
  show ?thesis
    using length_filter_remove_nth [OF assms, of "request_live s"]
      length_filter_remove_nth [OF assms, of "\<lambda>r. \<not> request_live s r"]
    by (auto simp: live_count_def stale_count_def live fl split: if_splits)
qed

lemma counts_append_live:
  assumes "in_flight t = in_flight s @ rs" and "request_live t = request_live s"
    and "\<forall>r \<in> set rs. request_live s r"
  shows "live_count t = live_count s + length rs \<and> stale_count t = stale_count s"
  using assms by (simp add: live_count_def stale_count_def)

section \<open>Answering a request\<close>

text \<open>
  After an answer, a message of the log can need a translation without its bubble
  being marked only if it carries the answered request's id and that request was
  stale: the answer wrote back the message captured by an unmounted pane, which may
  lack the entry the mounted pane has since cached.
\<close>

lemma complete_needing:
  assumes "saturated s" and "dedup_inv s" and "text_inv s" and "current_user s = Some u"
    and "i < length (in_flight s)"
    and "m \<in> set (messages (complete_translation s i reply))" and "needs_translation m u"
    and "msg_id m \<notin> translating (complete_translation s i reply)"
  shows "msg_id m = msg_id (rq_msg (in_flight s ! i)) \<and> \<not> request_live s (in_flight s ! i)"
proof -
  let ?r = "in_flight s ! i"
  let ?t = "translate_result reply (msg_text (rq_msg ?r))"
  let ?upd = "translated_message (rq_msg ?r) (rq_lang ?r) ?t"
  have tr: "translating s - {msg_id (rq_msg ?r)} \<subseteq> translating (complete_translation s i reply)"
    using complete_translation_hit(3) [OF assms(5)] by auto
  from assms(5,6) have "m = ?upd \<or> (m \<in> set (messages s) \<and> msg_id m \<noteq> msg_id (rq_msg ?r))"
    by (rule complete_translation_cases)
  moreover have "\<not> (m \<in> set (messages s) \<and> msg_id m \<noteq> msg_id (rq_msg ?r))"
    using assms(1,4,7,8) tr by (auto simp: saturated_def)
  ultimately have m: "m = ?upd" by blast
  have "\<not> request_live s ?r"
  proof
    assume live: "request_live s ?r"
    from assms(2,4,5) live have "rq_lang ?r = user_language u"
      by (auto simp: dedup_inv_def list_all_iff)
    moreover from assms(3,5) have "js_truthy ?t"
      by (simp add: text_inv_def list_all_iff msg_ok_def translate_result_truthy)
    ultimately show False using assms(7) m by (simp add: needs_translation_def js_simps)
  qed
  with m show ?thesis by simp
qed

lemma drain_step_decreases:
  assumes "app_reachable s" and "i < length (in_flight s)"
  shows "drain_measure (app_step s (Translation_Done i reply)) < drain_measure s"
proof -
  let ?s' = "complete_translation s i reply"
  let ?r = "in_flight s ! i"
  note cnt = complete_counts [OF assms(2), of reply]
  have live: "request_live ?s' = request_live s"
    by (rule request_live_eq) (simp_all add: complete_translation_keeps)
  show ?thesis
  proof (cases "current_user s")
    case None
    then have "app_step s (Translation_Done i reply) = ?s'" and "\<not> request_live s ?r"
      using complete_translation_keeps [of s i reply]
      by (simp_all add: app_step_def run_effects_None request_live_def)
    with cnt show ?thesis by (simp add: drain_measure_def)
  next
    case (Some u)
    let ?X = "if request_live s ?r then {} else {msg_id (rq_msg ?r)}"
    have cond: "\<forall>m \<in> set (messages ?s'). needs_translation m u \<longrightarrow> msg_id m \<notin> translating ?s' \<longrightarrow> msg_id m \<in> ?X"
      using complete_needing [OF reachable_saturated reachable_dedup_inv reachable_text_inv, OF assms(1,1,1) Some assms(2)]
      by auto
    have cu: "current_user ?s' = Some u"
      using Some complete_translation_keeps [of s i reply] by simp
    have fin: "finite ?X" by simp
    obtain rs where rs: "in_flight (run_effects ?s') = in_flight ?s' @ rs" "length rs \<le> card ?X"
        "\<forall>r \<in> set rs. request_live ?s' r"
      using run_effects_new [OF cu cond fin] by blast
    have "request_live (run_effects ?s') = request_live ?s'"
      by (rule request_live_eq) simp_all
    from counts_append_live [OF rs(1) this rs(3)] cnt rs(2) show ?thesis
      by (auto simp: drain_measure_def app_step_def split: if_splits)
  qed
qed

lemma drain_idle:
  assumes "app_reachable s" and "in_flight s = []"
  shows "in_flight (app_step s (Translation_Done i reply)) = []"
proof (cases "current_user s")
  case None
  with assms(2) show ?thesis by (simp add: app_step_def run_effects_None complete_translation_def)
next
  case (Some u)
  have s': "complete_translation s i reply = s"
    using assms(2) by (simp add: complete_translation_def)
  have "\<forall>m \<in> set (messages s). needs_translation m u \<longrightarrow> msg_id m \<notin> translating s \<longrightarrow> msg_id m \<in> {}"
    using reachable_saturated [OF assms(1)] Some by (simp add: saturated_def)
  then obtain rs where "in_flight (run_effects s) = in_flight s @ rs" "length rs \<le> card ({} :: ident set)"
    using run_effects_new [of s u "{}"] Some by blast
  with assms(2) s' show ?thesis by (simp add: app_step_def)
qed

lemma app_step_answer_user:
  "current_user (app_step s (Translation_Done i reply)) = current_user s"
  using complete_translation_keeps [of s i reply] by (simp add: app_step_def)

lemma app_run_answers:
  "app_reachable s \<Longrightarrow> drain_measure s \<le> length replies \<Longrightarrow>
   in_flight (app_run s (map (Translation_Done 0) replies)) = [] \<and>
   current_user (app_run s (map (Translation_Done 0) replies)) = current_user s \<and>
   app_reachable (app_run s (map (Translation_Done 0) replies))"
proof (induction replies arbitrary: s)
  case Nil
  then show ?case using in_flight_count [of s] by (simp add: drain_measure_def)
next
  case (Cons reply replies)
  let ?t = "app_step s (Translation_Done 0 reply)"
  have reach: "app_reachable ?t" using Cons.prems(1) by (rule app_reachable.step)
  have "drain_measure ?t \<le> length replies"
  proof (cases "in_flight s = []")
    case True
    then have "in_flight ?t = []" by (rule drain_idle [OF Cons.prems(1)])
    then show ?thesis using in_flight_count [of ?t] by (simp add: drain_measure_def)
  next
    case False
    then have "drain_measure ?t < drain_measure s"
      by (intro drain_step_decreases [OF Cons.prems(1)]) simp
    with Cons.prems(2) show ?thesis by simp
  qed
  from Cons.IH [OF reach this] show ?case by (simp add: app_step_answer_user)
qed

section \<open>Answering a live request settles its message\<close>

text \<open>Answering a live request: the messages with its id become the written-back message,
  in the signed-in user's language, and the step starts no new call for that id and
  leaves its bubble unmarked, provided the written-back entry is non-empty.\<close>

lemma answer_live_message:
  assumes "app_reachable s" and "i < length (in_flight s)" and "request_live s (in_flight s ! i)"
    and "current_user s = Some u"
    and "m' \<in> set (messages (app_step s (Translation_Done i reply)))"
    and "msg_id m' = msg_id (rq_msg (in_flight s ! i))"
  shows "m' = translated_message (rq_msg (in_flight s ! i)) (user_language u)
                (translate_result reply (msg_text (rq_msg (in_flight s ! i)))) \<and>
         msg_original_language m' \<noteq> user_language u \<and> \<not> needs_translation m' u"
proof -
  let ?r = "in_flight s ! i"
  have r: "?r \<in> set (in_flight s)" using assms(2) by (rule nth_mem)
  have lang: "rq_lang ?r = user_language u"
    using reachable_dedup_inv [OF assms(1)] r assms(3,4) by (auto simp: dedup_inv_def list_all_iff)
  have ok: "request_ok (rq_msg ?r) (rq_lang ?r)"
    using reachable_calls_inv [OF assms(1)] r by (simp add: calls_inv_def list_all_iff)
  have t: "js_truthy (translate_result reply (msg_text (rq_msg ?r)))"
    using reachable_text_inv [OF assms(1)] r by (simp add: text_inv_def list_all_iff msg_ok_def translate_result_truthy)
  have "m' \<in> set (messages (complete_translation s i reply))"
    using assms(5) by (simp add: app_step_def)
  with complete_translation_cases [OF assms(2)] assms(6)
  have m': "m' = translated_message (rq_msg ?r) (rq_lang ?r) (translate_result reply (msg_text (rq_msg ?r)))"
    by blast
  show ?thesis
    using m' lang ok t by (simp add: request_ok_def needs_translation_def js_simps)
qed

lemma answer_live_closes:
  assumes "app_reachable s" and "i < length (in_flight s)" and "request_live s (in_flight s ! i)"
  shows "msg_id (rq_msg (in_flight s ! i)) \<notin> translating (app_step s (Translation_Done i reply)) \<and>
         msg_id (rq_msg (in_flight s ! i)) \<notin> (\<lambda>(m, l). msg_id m) `
           set (drop (length (translator_calls s)) (translator_calls (app_step s (Translation_Done i reply))))"
proof -
  let ?r = "in_flight s ! i"
  let ?s1 = "complete_translation s i reply"
  obtain u where u: "current_user s = Some u" using assms(3) by (auto simp: request_live_def)
  then have u1: "current_user ?s1 = Some u" using complete_translation_keeps [of s i reply] by simp
  have step: "app_step s (Translation_Done i reply) = foldl (bubble_effect u) ?s1 (messages ?s1)"
    using u1 by (simp add: app_step_def run_effects_def)
  have nn: "\<not> needs_translation m u" if "m \<in> set (messages ?s1)" and "msg_id m = msg_id (rq_msg ?r)" for m
  proof -
    from that(1) have "m \<in> set (messages (app_step s (Translation_Done i reply)))"
      by (simp add: app_step_def)
    from answer_live_message [OF assms u this that(2)] show ?thesis by blast
  qed
  obtain rs :: "request list" where fl: "translating (foldl (bubble_effect u) ?s1 (messages ?s1)) =
        translating ?s1 \<union> set (map (\<lambda>r. msg_id (rq_msg r)) rs)"
    and rs0: "\<forall>r \<in> set rs. rq_msg r \<in> set (messages ?s1) \<and> needs_translation (rq_msg r) u \<and>
        msg_id (rq_msg r) \<notin> translating ?s1 \<and> rq_mount r = mount ?s1 \<and> rq_lang r = user_language u"
    using foldl_bubble_effect_new [of u ?s1 "messages ?s1"] by blast
  from rs0 have rs: "\<forall>r \<in> set rs. rq_msg r \<in> set (messages ?s1) \<and> needs_translation (rq_msg r) u"
    by blast
  obtain cs where cs: "translator_calls (foldl (bubble_effect u) ?s1 (messages ?s1)) = translator_calls ?s1 @ cs"
    and csok: "\<forall>(m, l) \<in> set cs. m \<in> set (messages ?s1) \<and> needs_translation m u"
    using foldl_bubble_effect_calls [of u ?s1 "messages ?s1"] by blast
  have tr1: "msg_id (rq_msg ?r) \<notin> translating ?s1"
    using complete_translation_hit(3) [OF assms(2)] assms(3) by simp
  have c1: "translator_calls ?s1 = translator_calls s"
    using complete_translation_frame [of s i reply] by simp
  have "msg_id (rq_msg ?r) \<notin> translating (app_step s (Translation_Done i reply))"
    unfolding step fl using tr1 rs nn by auto
  moreover have "msg_id (rq_msg ?r) \<notin> (\<lambda>(m, l). msg_id m) `
           set (drop (length (translator_calls s)) (translator_calls (app_step s (Translation_Done i reply))))"
    unfolding step cs c1 using csok nn by auto
  ultimately show ?thesis ..
qed

section \<open>Marked bubbles are bubbles of the log\<close>

lemma ids_inv_bubble_effect:
  "ids_inv s \<Longrightarrow> m \<in> set (messages s) \<Longrightarrow> ids_inv (bubble_effect u s m)"
  by (auto simp: ids_inv_def bubble_effect_def start_translation_def msg_ids_def)

lemma ids_inv_handle_event: "ids_inv s \<Longrightarrow> ids_inv (handle_event s e)"
  by (cases e)
     (auto simp: ids_inv_def mount_chat_room_def handle_join_def handle_send_message_def
        bot_fire_def logout_def complete_translation_def handle_update_message_def Let_def
        split: option.splits)

lemma ids_inv_app_step: "ids_inv s \<Longrightarrow> ids_inv (app_step s e)"
  unfolding app_step_def
  by (rule run_effects_invariant [where P = ids_inv])
     (auto intro: ids_inv_bubble_effect ids_inv_handle_event)

lemma reachable_ids_inv: "app_reachable s \<Longrightarrow> ids_inv s"
proof (induction rule: app_reachable.induct)
  case init
  show ?case by (simp add: ids_inv_def init_state_def)
next
  case (step s e)
  from step.IH show ?case by (rule ids_inv_app_step)
qed

section \<open>Properties\<close>

text \<open>
  Claim C23. Liveness of the translations: from any reachable state with a user
  signed in, if the provider answers the oldest pending request (with any answer,
  failures included) twice as many times as there are pending requests, nothing is
  left pending and no message of the log needs a translation for that user any more:
  each one is in the user's language, is a system message, or has a non-empty cached
  translation, which its bubble displays.
\<close>

theorem pending_translations_drain:
  assumes "app_reachable s" and "current_user s = Some u"
    and "2 * length (in_flight s) \<le> length replies"
  shows "in_flight (app_run s (map (Translation_Done 0) replies)) = [] \<and>
         (\<forall>m \<in> set (messages (app_run s (map (Translation_Done 0) replies))). \<not> needs_translation m u)"
proof -
  let ?t = "app_run s (map (Translation_Done 0) replies)"
  have "drain_measure s \<le> length replies"
    using in_flight_count [of s] assms(3) by (simp add: drain_measure_def)
  with assms(1) have t: "in_flight ?t = [] \<and> current_user ?t = current_user s \<and> app_reachable ?t"
    by (rule app_run_answers)
  then have "translating ?t = {}"
    using reachable_dedup_inv [of ?t] by (simp add: dedup_inv_def live_ids_def)
  moreover have "saturated ?t" using t by (simp add: reachable_saturated)
  ultimately show ?thesis using t assms(2) by (simp add: saturated_def)
qed

theorem pending_translations_drain_witness:
  "app_reachable (app_run init_state viewer_switch_run) \<and>
   current_user (app_run init_state viewer_switch_run) =
     Some (the (current_user (app_run init_state viewer_switch_run))) \<and>
   2 * length (in_flight (app_run init_state viewer_switch_run)) \<le> length [Reply_Throws, Reply_Throws] \<and>
   in_flight (app_run (app_run init_state viewer_switch_run)
     (map (Translation_Done 0) [Reply_Throws, Reply_Throws])) = []"
proof -
  have h2: "current_user (app_run init_state viewer_switch_run) =
     Some (the (current_user (app_run init_state viewer_switch_run)))"
    by (simp add: app_eval_defs)
  have h3: "2 * length (in_flight (app_run init_state viewer_switch_run)) \<le> length [Reply_Throws, Reply_Throws]"
    by (simp add: app_eval_defs)
  show ?thesis
    by (rule conjI [OF viewer_switch_reachable conjI [OF h2 conjI [OF h3
          pending_translations_drain [OF viewer_switch_reachable h2 h3, THEN conjunct1]]]])
qed

text \<open>
  Claim C24. Termination of the translation work: answering any pending request,
  in any order, strictly decreases \<open>2 * stale + live\<close>, a measure bounded by twice
  the number of pending requests; so no interleaving of answers keeps the application
  issuing requests forever.
\<close>

theorem drain_measure_variant:
  assumes "app_reachable s" and "i < length (in_flight s)"
  shows "drain_measure (app_step s (Translation_Done i reply)) < drain_measure s \<and>
         drain_measure s \<le> 2 * length (in_flight s)"
  using drain_step_decreases [OF assms] in_flight_count [of s] by (simp add: drain_measure_def)

theorem drain_measure_variant_witness:
  "app_reachable (app_run init_state viewer_switch_run) \<and>
   0 < length (in_flight (app_run init_state viewer_switch_run)) \<and>
   drain_measure (app_step (app_run init_state viewer_switch_run) (Translation_Done 0 Reply_Throws)) <
     drain_measure (app_run init_state viewer_switch_run)"
proof -
  have h2: "0 < length (in_flight (app_run init_state viewer_switch_run))"
    by (simp add: app_eval_defs)
  show ?thesis
    by (rule conjI [OF viewer_switch_reachable conjI [OF h2
          drain_measure_variant [OF viewer_switch_reachable h2, THEN conjunct1]]])
qed

text \<open>
  Claim C25. Bound on the pending work of the mounted pane: the requests still
  awaited by mounted bubbles are exactly as many as the bubbles showing the typing
  indicator, and never more than the messages of the log.
\<close>

theorem live_requests_bounded:
  assumes "app_reachable s"
  shows "live_count s = card (translating s) \<and> card (translating s) \<le> length (messages s)"
proof -
  from reachable_dedup_inv [OF assms] have "set (live_ids s) = translating s" "distinct (live_ids s)"
    by (simp_all add: dedup_inv_def)
  then have "live_count s = card (translating s)"
    by (metis distinct_card length_map live_count_def live_ids_def)
  moreover have "card (translating s) \<le> card (set (msg_ids (messages s)))"
    using reachable_ids_inv [OF assms] by (simp add: ids_inv_def card_mono)
  moreover have "card (set (msg_ids (messages s))) \<le> length (messages s)"
    using card_length [of "msg_ids (messages s)"] by (simp add: msg_ids_def)
  ultimately show ?thesis by simp
qed

theorem live_requests_bounded_witness:
  "app_reachable (app_run init_state viewer_switch_run) \<and>
   live_count (app_run init_state viewer_switch_run) =
     card (translating (app_run init_state viewer_switch_run))"
  using viewer_switch_reachable live_requests_bounded [OF viewer_switch_reachable, THEN conjunct1]
  by (rule conjI)

text \<open>
  Claim C27. Equivalence of the effect pass with its declarative description: when
  the ids of the log are pairwise distinct, running every bubble's effect in turn
  (\<open>run_effects\<close>) marks and requests exactly the messages that need a translation
  and are not marked, once each, in log order (\<open>effects_spec\<close>).
\<close>

theorem run_effects_equiv_spec:
  assumes "current_user s = Some u" and "distinct (msg_ids (messages s))"
  shows "run_effects s = effects_spec u s"
  using assms foldl_bubble_effect_distinct [of "messages s" u s]
  by (simp add: run_effects_def effects_spec_def msg_ids_def)

theorem run_effects_equiv_spec_witness:
  "current_user (app_run init_state viewer_switch_run) =
     Some (the (current_user (app_run init_state viewer_switch_run))) \<and>
   distinct (msg_ids (messages (app_run init_state viewer_switch_run))) \<and>
   run_effects (app_run init_state viewer_switch_run) =
     effects_spec (the (current_user (app_run init_state viewer_switch_run))) (app_run init_state viewer_switch_run)"
proof -
  have h1: "current_user (app_run init_state viewer_switch_run) =
     Some (the (current_user (app_run init_state viewer_switch_run)))"
    by (simp add: app_eval_defs)
  have h2: "distinct (msg_ids (messages (app_run init_state viewer_switch_run)))"
    by (simp add: app_eval_defs msg_ids_def show_int_inj)
  show ?thesis using h1 h2 run_effects_equiv_spec [OF h1 h2] by simp
qed

end
