(* ===== verification/Views.thy ===== *)
theory Views
  imports Progress
begin

text \<open>
  What the application renders, as functions of the state of theory \<open>App\<close>: the
  join form (the JSX of \<open>JoinScreen\<close>, \<open>src/components/JoinScreen.tsx\<close>), the
  chat pane (the JSX of \<open>ChatRoom\<close>, \<open>src/components/ChatRoom.tsx\<close>, with one
  \<open>bubble_view\<close> of theory \<open>Bubble\<close> per message, keyed by the message id) and
  \<open>App\<close>'s choice between the two (\<open>src/App.tsx\<close>). A view keeps the texts,
  values and flags that depend on the state; fixed markup (icons, titles, the CSS of
  the panes) is left out, except the class of a language button, which is the one
  class that depends on the state. The lemmas show that the join form always
  highlights exactly one language, the one its footer names, that clicking a
  language button highlights that button and no other, and that the chat pane never
  shows the untranslated original of a message the viewer needs translated.
\<close>

record lang_button =
  lb_key :: lang_code
  lb_flag :: string
  lb_label :: string
  lb_selected :: bool
  lb_class :: string

definition lang_button_class :: "bool \<Rightarrow> string" where
  "lang_button_class selected =
     ''flex items-center gap-2 px-3 py-2 rounded-lg border text-sm transition-all '' @
     (if selected then ''bg-indigo-600 text-white border-indigo-600 shadow-md''
      else ''bg-white text-gray-700 border-gray-200 hover:border-indigo-300'')"

definition join_button :: "language_option \<Rightarrow> language_option \<Rightarrow> lang_button" where
  "join_button selected_lang lang =
     \<lparr>lb_key = lo_code lang, lb_flag = lo_flag lang, lb_label = lo_label lang,
      lb_selected = (lo_code selected_lang = lo_code lang),
      lb_class = lang_button_class (lo_code selected_lang = lo_code lang)\<rparr>"

record join_view =
  jv_nickname :: string
  jv_buttons :: "lang_button list"
  jv_footer :: string

definition join_view :: "string \<Rightarrow> language_option \<Rightarrow> join_view" where
  "join_view nickname selected_lang =
     \<lparr>jv_nickname = nickname,
      jv_buttons = map (join_button selected_lang) supported_languages,
      jv_footer = ''All messages will be automatically translated to '' @ lo_label selected_lang\<rparr>"

record chat_view =
  cv_nickname :: string
  cv_language_line :: string
  cv_bubbles :: "(ident \<times> bubble_view) list"
  cv_input :: string
  cv_placeholder :: string
  cv_send_disabled :: bool

definition chat_view :: "user \<Rightarrow> message list \<Rightarrow> ident set \<Rightarrow> string \<Rightarrow> chat_view" where
  "chat_view u ms is_translating input =
     \<lparr>cv_nickname = user_nickname u,
      cv_language_line = ''Native Language: '' @ user_language_label u,
      cv_bubbles = map (\<lambda>m. (msg_id m, bubble_view m u (msg_id m \<in> is_translating))) ms,
      cv_input = input,
      cv_placeholder = ''Message in '' @ user_language_label u @ ''...'',
      cv_send_disabled = send_disabled input\<rparr>"

datatype screen = Join_Screen join_view | Chat_Screen chat_view

definition app_view :: "chat_state \<Rightarrow> screen" where
  "app_view s =
     (case current_user s of
        None \<Rightarrow> Join_Screen (join_view (join_nickname s) (join_lang s))
      | Some u \<Rightarrow> Chat_Screen (chat_view u (messages s) (translating s) (input_text s)))"

text \<open>Reading a rendered bubble: whether it shows the typing indicator.\<close>

definition bubble_typing :: "bubble_view \<Rightarrow> bool" where
  "bubble_typing b = (case b of Chat_Bubble _ _ _ Typing_Dots _ \<Rightarrow> True | _ \<Rightarrow> False)"

definition lang_ok :: "chat_state \<Rightarrow> bool" where
  "lang_ok s \<longleftrightarrow> join_lang s \<in> set supported_languages"

section \<open>The selected language is always one of the registry\<close>

lemma join_default_language_in: "join_default_language \<in> set supported_languages"
  by (simp add: join_default_language_def supported_languages_def)

lemma lang_ok_handle_event: "lang_ok s \<Longrightarrow> lang_ok (handle_event s e)"
  by (cases e)
     (auto simp: lang_ok_def join_default_language_in mount_chat_room_def handle_join_def
        handle_send_message_def bot_fire_def logout_def complete_translation_def
        handle_update_message_def Let_def split: option.splits)

lemma lang_ok_app_step: "lang_ok s \<Longrightarrow> lang_ok (app_step s e)"
  by (simp add: app_step_def lang_ok_def lang_ok_handle_event [unfolded lang_ok_def])

lemma reachable_lang_ok: "app_reachable s \<Longrightarrow> lang_ok s"
proof (induction rule: app_reachable.induct)
  case init
  show ?case by (simp add: lang_ok_def init_state_def join_default_language_in)
next
  case (step s e)
  from step.IH show ?case by (rule lang_ok_app_step)
qed

lemma join_buttons_selected:
  "sel \<in> set supported_languages \<Longrightarrow>
   filter lb_selected (jv_buttons (join_view n sel)) = [join_button sel sel]"
  using filter_key_unique [OF supported_languages_distinct_codes, of sel]
  by (simp add: join_view_def filter_map comp_def join_button_def)

text \<open>
  Claim C21. In every reachable state the join form highlights exactly one language
  button, and it is the button of the language the footer line names.
\<close>

theorem join_form_one_highlighted:
  assumes "app_reachable s"
  shows "map lb_label (filter lb_selected (jv_buttons (join_view (join_nickname s) (join_lang s)))) =
           [lo_label (join_lang s)] \<and>
         jv_footer (join_view (join_nickname s) (join_lang s)) =
           ''All messages will be automatically translated to '' @ lo_label (join_lang s)"
proof -
  from reachable_lang_ok [OF assms] have "join_lang s \<in> set supported_languages"
    by (simp add: lang_ok_def)
  then have "filter lb_selected (jv_buttons (join_view (join_nickname s) (join_lang s))) =
      [join_button (join_lang s) (join_lang s)]"
    by (rule join_buttons_selected)
  then show ?thesis by (simp add: join_button_def join_view_def)
qed

theorem join_form_one_highlighted_witness:
  "app_reachable (app_step init_state (Join_Select 3)) \<and>
   map lb_label (filter lb_selected (jv_buttons (join_view (join_nickname (app_step init_state (Join_Select 3)))
       (join_lang (app_step init_state (Join_Select 3)))))) =
     [lo_label (join_lang (app_step init_state (Join_Select 3)))]"
proof -
  have h: "app_reachable (app_step init_state (Join_Select 3))"
    by (rule app_reachable.step) (rule app_reachable.init)
  show ?thesis using h join_form_one_highlighted [OF h, THEN conjunct1] by (rule conjI)
qed

text \<open>
  Claim C22. Clicking the \<open>i\<close>-th language button of the join form highlights the
  \<open>i\<close>-th button and no other (the codes of the registry are pairwise distinct).
\<close>

theorem join_select_highlights_clicked:
  assumes "current_user s = None"
    and "i < length supported_languages" and "j < length supported_languages"
  shows "lb_selected (jv_buttons (join_view n (join_lang (app_step s (Join_Select i)))) ! j) \<longleftrightarrow> i = j"
proof -
  have "join_lang (app_step s (Join_Select i)) = supported_languages ! i"
    using assms(1,2) by (simp add: app_step_def)
  then have "lb_selected (jv_buttons (join_view n (join_lang (app_step s (Join_Select i)))) ! j) \<longleftrightarrow>
      map lo_code supported_languages ! i = map lo_code supported_languages ! j"
    using assms(2,3) by (simp add: join_view_def join_button_def)
  also have "\<dots> \<longleftrightarrow> i = j"
    by (rule nth_eq_iff_index_eq [OF supported_languages_distinct_codes]) (simp_all add: assms(2,3))
  finally show ?thesis .
qed

theorem join_select_highlights_clicked_witness:
  "current_user init_state = None \<and>
   3 < length supported_languages \<and> 3 < length supported_languages \<and>
   lb_selected (jv_buttons (join_view [] (join_lang (app_step init_state (Join_Select 3)))) ! 3)"
proof -
  have h2: "current_user init_state = None" by (simp add: init_state_def)
  have h3: "3 < length supported_languages" by (simp add: supported_languages_length)
  show ?thesis
    using h2 h3 join_select_highlights_clicked [OF h2 h3 h3, of "[]"] by simp
qed

text \<open>
  Claim C26. Between events (once the bubbles' effects have run), the chat pane never
  shows the untranslated original of a message that needs a translation for the
  viewer: the pane shows the message's bubble, and that bubble shows the typing
  indicator.
\<close>

theorem no_untranslated_bubble:
  assumes "app_reachable s" and "current_user s = Some u"
    and "m \<in> set (messages s)" and "needs_translation m u"
  shows "app_view s = Chat_Screen (chat_view u (messages s) (translating s) (input_text s)) \<and>
         (msg_id m, bubble_view m u (msg_id m \<in> translating s))
           \<in> set (cv_bubbles (chat_view u (messages s) (translating s) (input_text s))) \<and>
         bubble_typing (bubble_view m u (msg_id m \<in> translating s))"
proof -
  have "msg_id m \<in> translating s"
    using reachable_saturated [OF assms(1)] assms(2-4) by (simp add: saturated_def)
  moreover have "\<not> is_system m" using assms(4) by (simp add: needs_translation_def)
  ultimately have "bubble_typing (bubble_view m u (msg_id m \<in> translating s))"
    by (simp add: bubble_view_def bubble_typing_def)
  moreover have "(msg_id m, bubble_view m u (msg_id m \<in> translating s))
      \<in> set (cv_bubbles (chat_view u (messages s) (translating s) (input_text s)))"
    using assms(3) by (auto simp: chat_view_def)
  moreover have "app_view s = Chat_Screen (chat_view u (messages s) (translating s) (input_text s))"
    using assms(2) by (simp add: app_view_def)
  ultimately show ?thesis by blast
qed

theorem no_untranslated_bubble_witness:
  "app_reachable (app_run init_state viewer_switch_run) \<and>
   current_user (app_run init_state viewer_switch_run) =
     Some (the (current_user (app_run init_state viewer_switch_run))) \<and>
   messages (app_run init_state viewer_switch_run) ! 1 \<in> set (messages (app_run init_state viewer_switch_run)) \<and>
   needs_translation (messages (app_run init_state viewer_switch_run) ! 1)
     (the (current_user (app_run init_state viewer_switch_run))) \<and>
   bubble_typing (bubble_view (messages (app_run init_state viewer_switch_run) ! 1)
     (the (current_user (app_run init_state viewer_switch_run)))
     (msg_id (messages (app_run init_state viewer_switch_run) ! 1)
        \<in> translating (app_run init_state viewer_switch_run)))"
proof -
  have h2: "current_user (app_run init_state viewer_switch_run) =
     Some (the (current_user (app_run init_state viewer_switch_run)))"
    by (simp add: app_eval_defs)
  have h3: "messages (app_run init_state viewer_switch_run) ! 1 \<in> set (messages (app_run init_state viewer_switch_run))"
    by (rule nth_mem) (simp add: app_eval_defs)
  have h4: "needs_translation (messages (app_run init_state viewer_switch_run) ! 1)
     (the (current_user (app_run init_state viewer_switch_run)))"
    by (simp add: app_eval_defs)
  show ?thesis
    by (rule conjI [OF viewer_switch_reachable conjI [OF h2 conjI [OF h3 conjI [OF h4
          no_untranslated_bubble [OF viewer_switch_reachable h2 h3 h4, THEN conjunct2, THEN conjunct2]]]]])
qed

text \<open>
  Claim C33. Signing out (\<open>onLogout\<close>) shows a fresh join form, with an empty
  nickname and the first registry language selected, and keeps the whole log and every
  pending translation request: the requests are not cancelled and will still write
  back.
\<close>

theorem logout_resets_join_form:
  assumes "current_user s \<noteq> None"
  shows "app_view (app_step s Logout) = Join_Screen (join_view [] join_default_language) \<and>
         messages (app_step s Logout) = messages s \<and> in_flight (app_step s Logout) = in_flight s"
  using assms by (simp add: app_step_def logout_def run_effects_None app_view_def)

theorem logout_resets_join_form_witness:
  "current_user (app_run init_state [Join_Type ''A'', Join_Submit ''ua'' 1000]) \<noteq> None \<and>
   app_view (app_step (app_run init_state [Join_Type ''A'', Join_Submit ''ua'' 1000]) Logout) =
     Join_Screen (join_view [] join_default_language)"
proof -
  have h: "current_user (app_run init_state [Join_Type ''A'', Join_Submit ''ua'' 1000]) \<noteq> None"
    by (simp add: app_eval_defs)
  show ?thesis using h logout_resets_join_form [OF h, THEN conjunct1] by (rule conjI)
qed

text \<open>
  Claim C35. The typing indicator tracks the asynchronous work exactly: in every
  reachable state with a user signed in, the bubble of a (non-system) message of the
  log shows the typing indicator if and only if a request for that message issued by
  the mounted chat pane is still pending.
\<close>

theorem typing_indicator_iff_pending:
  assumes "app_reachable s" and "current_user s = Some u"
    and "m \<in> set (messages s)" and "\<not> is_system m"
  shows "bubble_typing (bubble_view m u (msg_id m \<in> translating s)) \<longleftrightarrow>
         (\<exists>r \<in> set (in_flight s). request_live s r \<and> msg_id (rq_msg r) = msg_id m)"
proof -
  have "bubble_typing (bubble_view m u (msg_id m \<in> translating s)) \<longleftrightarrow> msg_id m \<in> translating s"
    using assms(4) by (simp add: bubble_view_def bubble_typing_def)
  also have "\<dots> \<longleftrightarrow> msg_id m \<in> set (live_ids s)"
    using reachable_dedup_inv [OF assms(1)] by (simp add: dedup_inv_def)
  also have "\<dots> \<longleftrightarrow> (\<exists>r \<in> set (in_flight s). request_live s r \<and> msg_id (rq_msg r) = msg_id m)"
    by (auto simp: live_ids_def rev_image_eqI)
  finally show ?thesis .
qed

theorem typing_indicator_iff_pending_witness:
  "app_reachable (app_run init_state viewer_switch_run) \<and>
   current_user (app_run init_state viewer_switch_run) =
     Some (the (current_user (app_run init_state viewer_switch_run))) \<and>
   messages (app_run init_state viewer_switch_run) ! 1 \<in> set (messages (app_run init_state viewer_switch_run)) \<and>
   \<not> is_system (messages (app_run init_state viewer_switch_run) ! 1) \<and>
   (bubble_typing (bubble_view (messages (app_run init_state viewer_switch_run) ! 1)
      (the (current_user (app_run init_state viewer_switch_run)))
      (msg_id (messages (app_run init_state viewer_switch_run) ! 1)
         \<in> translating (app_run init_state viewer_switch_run))) \<longleftrightarrow>
    (\<exists>r \<in> set (in_flight (app_run init_state viewer_switch_run)).
       request_live (app_run init_state viewer_switch_run) r \<and>
       msg_id (rq_msg r) = msg_id (messages (app_run init_state viewer_switch_run) ! 1)))"
proof -
  have h2: "current_user (app_run init_state viewer_switch_run) =
     Some (the (current_user (app_run init_state viewer_switch_run)))"
    by (simp add: app_eval_defs)
  have h3: "messages (app_run init_state viewer_switch_run) ! 1 \<in> set (messages (app_run init_state viewer_switch_run))"
    by (rule nth_mem) (simp add: app_eval_defs)
  have h4: "\<not> is_system (messages (app_run init_state viewer_switch_run) ! 1)"
    by (simp add: app_eval_defs)
  show ?thesis
    by (rule conjI [OF viewer_switch_reachable conjI [OF h2 conjI [OF h3 conjI [OF h4
          typing_indicator_iff_pending [OF viewer_switch_reachable h2 h3 h4]]]]])
qed

end
