(* ===== verification/Canonical.thy ===== *)
theory Canonical
  imports App
begin

text \<open>
  The specification's first invariant: a message's canonical part (id, sender, text,
  original language, timestamp) is set once at creation and never changes; only its
  translation cache does. In the code the write-back of a translation replaces every
  message with the answered id by the copy captured when the request was issued
  (\<open>handleUpdateMessage\<close>), so the invariant holds exactly when ids identify
  messages. The ids come from the environment (\<open>Date.now()\<close>, \<open>Math.random()\<close>);
  \<open>fresh_event\<close> says that the message an event would create has an id not yet in
  the log, and \<open>fresh_reachable\<close> is reachability by such events only. On those runs
  the log's ids stay distinct, every pending request's captured message agrees with
  the log on its canonical part (\<open>canon_inv\<close>), and so the canonical part of the log
  only grows at the end.
\<close>

definition canon :: "message \<Rightarrow> ident \<times> ident \<times> string \<times> string \<times> lang_code \<times> int" where
  "canon m = (msg_id m, msg_sender_id m, msg_sender_name m, msg_text m,
              msg_original_language m, msg_timestamp m)"

definition created_id :: "event \<Rightarrow> ident option" where
  "created_id e =
     (case e of
        Join_Submit rand now \<Rightarrow> Some (''system-'' @ show_int now)
      | Chat_Submit rand now \<Rightarrow> Some (''msg-'' @ rand)
      | Bot_Timer now \<Rightarrow> Some (''bot-'' @ show_int now)
      | _ \<Rightarrow> None)"

definition fresh_event :: "chat_state \<Rightarrow> event \<Rightarrow> bool" where
  "fresh_event s e =
     (case created_id e of None \<Rightarrow> True | Some i \<Rightarrow> i \<notin> set (msg_ids (messages s)))"

inductive fresh_reachable :: "chat_state \<Rightarrow> bool" where
  init: "fresh_reachable init_state"
| step: "fresh_reachable s \<Longrightarrow> fresh_event s e \<Longrightarrow> fresh_reachable (app_step s e)"

text \<open>
  The clock value an event reads when it creates a message (\<open>Date.now()\<close>), and
  the condition that the clock has not gone back since the messages of the log were
  created; \<open>timed_reachable\<close> is reachability by fresh events on such a clock.
\<close>

definition created_time :: "event \<Rightarrow> int option" where
  "created_time e =
     (case e of
        Join_Submit rand now \<Rightarrow> Some now
      | Chat_Submit rand now \<Rightarrow> Some now
      | Bot_Timer now \<Rightarrow> Some now
      | _ \<Rightarrow> None)"

definition clock_ok :: "chat_state \<Rightarrow> event \<Rightarrow> bool" where
  "clock_ok s e =
     (case created_time e of
        None \<Rightarrow> True
      | Some t \<Rightarrow> (\<forall>m \<in> set (messages s). msg_timestamp m \<le> t))"

inductive timed_reachable :: "chat_state \<Rightarrow> bool" where
  init: "timed_reachable init_state"
| step: "timed_reachable s \<Longrightarrow> fresh_event s e \<Longrightarrow> clock_ok s e \<Longrightarrow>
         timed_reachable (app_step s e)"

definition canon_inv :: "chat_state \<Rightarrow> bool" where
  "canon_inv s \<longleftrightarrow>
     distinct (msg_ids (messages s)) \<and>
     (\<forall>r \<in> set (in_flight s). msg_id (rq_msg r) \<in> set (msg_ids (messages s)) \<and>
        (\<forall>m \<in> set (messages s). msg_id m = msg_id (rq_msg r) \<longrightarrow> canon m = canon (rq_msg r)))"

section \<open>What a handler other than the write-back does to the log\<close>

text \<open>
  Every handler except the translation write-back either leaves the log alone or
  appends one message, whose id and timestamp are the ones the event supplies; none of
  them touches the pending requests or the record of translator calls, and only
  signing out signs the user out.
\<close>

lemma handle_event_shape:
  assumes "\<forall>i reply. e \<noteq> Translation_Done i reply"
  shows "in_flight (handle_event s e) = in_flight s \<and>
         translator_calls (handle_event s e) = translator_calls s \<and>
         (messages (handle_event s e) = messages s \<or>
          (\<exists>m. messages (handle_event s e) = messages s @ [m] \<and>
               created_id e = Some (msg_id m) \<and> created_time e = Some (msg_timestamp m)))"
  using assms
  by (cases e)
     (auto simp: mount_chat_room_def handle_join_def handle_send_message_def bot_fire_def logout_def
        append_message_def created_id_def created_time_def welcome_message_def new_message_def
        bot_message_def split: option.splits)

lemma handle_event_user:
  "e \<noteq> Logout \<Longrightarrow> current_user (handle_event s e) = None \<Longrightarrow> current_user s = None"
  by (cases e)
     (auto simp: mount_chat_room_def handle_join_def handle_send_message_def bot_fire_def
        complete_translation_def handle_update_message_def Let_def split: option.splits if_splits)

lemma fresh_event_created:
  "fresh_event s e \<Longrightarrow> created_id e = Some i \<Longrightarrow> i \<notin> set (msg_ids (messages s))"
  by (simp add: fresh_event_def)

lemma clock_ok_created:
  "clock_ok s e \<Longrightarrow> created_time e = Some t \<Longrightarrow> m \<in> set (messages s) \<Longrightarrow> msg_timestamp m \<le> t"
  by (simp add: clock_ok_def)

section \<open>The canonical part under the store operations\<close>

lemma msg_ids_canon: "msg_ids ms = map fst (map canon ms)"
  by (simp add: msg_ids_def canon_def comp_def)

lemma canon_translated [simp]: "canon (translated_message m l t) = canon m"
  by (simp add: canon_def)

lemma map_canon_update_message:
  "\<forall>m \<in> set ms. msg_id m = msg_id u \<longrightarrow> canon m = canon u \<Longrightarrow>
   map canon (update_message ms u) = map canon ms"
  by (induction ms) (auto simp: update_message_def)

lemma canon_inv_frame:
  assumes "canon_inv s" and "map canon (messages s') = map canon (messages s)"
    and "set (in_flight s') \<subseteq> set (in_flight s)"
  shows "canon_inv s'"
proof -
  have ids: "msg_ids (messages s') = msg_ids (messages s)"
    using assms(2) by (simp add: msg_ids_canon)
  have "set (map canon (messages s')) = set (map canon (messages s))"
    by (simp only: assms(2))
  then have img: "canon ` set (messages s') = canon ` set (messages s)" by simp
  have ex: "\<exists>m' \<in> set (messages s). canon m' = canon m" if "m \<in> set (messages s')" for m
  proof -
    from that have "canon m \<in> canon ` set (messages s)" unfolding img [symmetric] by (rule imageI)
    then show ?thesis by auto
  qed
  have idc: "msg_id m = fst (canon m)" for m by (simp add: canon_def)
  show ?thesis unfolding canon_inv_def
  proof (intro conjI ballI)
    show "distinct (msg_ids (messages s'))" using assms(1) ids by (simp add: canon_inv_def)
  next
    fix r assume "r \<in> set (in_flight s')"
    then have "r \<in> set (in_flight s)" using assms(3) by blast
    then show "msg_id (rq_msg r) \<in> set (msg_ids (messages s'))"
      using assms(1) ids by (simp add: canon_inv_def)
  next
    fix r m assume "r \<in> set (in_flight s')" and m: "m \<in> set (messages s')"
    then have r0: "r \<in> set (in_flight s)" using assms(3) by blast
    show "msg_id m = msg_id (rq_msg r) \<longrightarrow> canon m = canon (rq_msg r)"
    proof
      assume eq: "msg_id m = msg_id (rq_msg r)"
      obtain m' where m': "m' \<in> set (messages s)" "canon m' = canon m" using ex [OF m] by blast
      then have "msg_id m' = msg_id (rq_msg r)" using eq idc by metis
      with assms(1) r0 m' show "canon m = canon (rq_msg r)" by (auto simp: canon_inv_def)
    qed
  qed
qed

lemma canon_inv_bubble_effect:
  assumes "canon_inv s" and "m \<in> set (messages s)"
  shows "canon_inv (bubble_effect u s m)"
proof -
  have "m' = m" if "m' \<in> set (messages s)" and "msg_id m' = msg_id m" for m'
    using assms that by (auto simp: canon_inv_def msg_ids_def distinct_map dest: inj_onD)
  with assms show ?thesis
    by (auto simp: canon_inv_def bubble_effect_def start_translation_def msg_ids_def)
qed

lemma canon_inv_append:
  assumes "canon_inv s" and "msg_id m \<notin> set (msg_ids (messages s))"
    and "messages s' = messages s @ [m]" and "in_flight s' = in_flight s"
  shows "canon_inv s'"
  using assms by (auto simp: canon_inv_def msg_ids_def)

lemma complete_canon:
  assumes "canon_inv s"
  shows "map canon (messages (complete_translation s i reply)) = map canon (messages s)"
proof (cases "i < length (in_flight s)")
  case True
  let ?r = "in_flight s ! i"
  from assms True have "\<forall>m \<in> set (messages s). msg_id m = msg_id (rq_msg ?r) \<longrightarrow> canon m = canon (rq_msg ?r)"
    by (simp add: canon_inv_def)
  then show ?thesis
    using True by (simp add: complete_translation_hit map_canon_update_message)
next
  case False
  then show ?thesis by (simp add: complete_translation_def)
qed

lemma canon_inv_complete: "canon_inv s \<Longrightarrow> canon_inv (complete_translation s i reply)"
  using complete_canon complete_translation_frame by (blast intro: canon_inv_frame)

lemma canon_inv_handle_event:
  assumes "canon_inv s" and "fresh_event s e"
  shows "canon_inv (handle_event s e)"
proof (cases "\<exists>i reply. e = Translation_Done i reply")
  case True
  with assms(1) show ?thesis by (auto simp: canon_inv_complete)
next
  case False
  then have shape: "in_flight (handle_event s e) = in_flight s \<and>
      (messages (handle_event s e) = messages s \<or>
       (\<exists>m. messages (handle_event s e) = messages s @ [m] \<and> created_id e = Some (msg_id m)))"
    using handle_event_shape [of e s] by auto
  then show ?thesis
  proof (elim conjE disjE exE)
    assume "in_flight (handle_event s e) = in_flight s" and "messages (handle_event s e) = messages s"
    then show ?thesis by (intro canon_inv_frame [OF assms(1)]) simp_all
  next
    fix m assume "in_flight (handle_event s e) = in_flight s"
      and "messages (handle_event s e) = messages s @ [m]" and "created_id e = Some (msg_id m)"
    with fresh_event_created [OF assms(2)] show ?thesis
      by (intro canon_inv_append [OF assms(1)]) auto
  qed
qed

lemma canon_inv_app_step: "canon_inv s \<Longrightarrow> fresh_event s e \<Longrightarrow> canon_inv (app_step s e)"
  unfolding app_step_def
  by (rule run_effects_invariant [where P = canon_inv])
     (auto intro: canon_inv_bubble_effect canon_inv_handle_event)

lemma fresh_reachable_canon_inv: "fresh_reachable s \<Longrightarrow> canon_inv s"
proof (induction rule: fresh_reachable.induct)
  case init
  show ?case by (simp add: canon_inv_def init_state_def msg_ids_def)
next
  case (step s e)
  from step.IH step.hyps(2) show ?case by (rule canon_inv_app_step)
qed

lemma handle_event_canon:
  assumes "canon_inv s"
  shows "\<exists>zs. map canon (messages (handle_event s e)) = map canon (messages s) @ zs"
proof (cases e)
  case (Translation_Done i reply)
  with complete_canon [OF assms] show ?thesis by simp
qed (auto simp: mount_chat_room_def handle_join_def handle_send_message_def bot_fire_def
       logout_def append_message_def split: option.splits)

section \<open>Timestamps\<close>

lemma timestamps_canon: "map msg_timestamp ms = map (\<lambda>(_, _, _, _, _, t). t) (map canon ms)"
  by (simp add: canon_def)

lemma timed_reachable_fresh: "timed_reachable s \<Longrightarrow> fresh_reachable s"
  by (induction rule: timed_reachable.induct) (auto intro: fresh_reachable.intros)

lemma sorted_snoc_clock:
  "sorted (map msg_timestamp ms) \<Longrightarrow> \<forall>m \<in> set ms. msg_timestamp m \<le> msg_timestamp x \<Longrightarrow>
   sorted (map msg_timestamp (ms @ [x]))"
  by (auto simp: sorted_append)

lemma handle_event_sorted:
  assumes "canon_inv s" and "clock_ok s e" and "sorted (map msg_timestamp (messages s))"
  shows "sorted (map msg_timestamp (messages (handle_event s e)))"
proof (cases "\<exists>i reply. e = Translation_Done i reply")
  case True
  then obtain i reply where e: "e = Translation_Done i reply" by blast
  have "map msg_timestamp (messages (complete_translation s i reply)) = map msg_timestamp (messages s)"
    by (simp only: timestamps_canon complete_canon [OF assms(1)])
  with e assms(3) show ?thesis by simp
next
  case False
  then have "messages (handle_event s e) = messages s \<or>
      (\<exists>m. messages (handle_event s e) = messages s @ [m] \<and> created_time e = Some (msg_timestamp m))"
    using handle_event_shape [of e s] by auto
  then show ?thesis
  proof (elim disjE exE conjE)
    fix m assume ms: "messages (handle_event s e) = messages s @ [m]"
      and tm: "created_time e = Some (msg_timestamp m)"
    show ?thesis unfolding ms
      by (rule sorted_snoc_clock [OF assms(3)]) (use clock_ok_created [OF assms(2) tm] in blast)
  qed (use assms(3) in simp)
qed

section \<open>Properties\<close>

text \<open>
  Claim C30. On runs where every created message gets a fresh id, the canonical part
  of the log (id, sender, text, original language and timestamp of each message) only
  grows at the end: no step changes the text or the original language of a message
  already in the log, translations resolving included.
\<close>

theorem canonical_part_immutable:
  assumes "fresh_reachable s"
  shows "\<exists>zs. map canon (messages (app_step s e)) = map canon (messages s) @ zs"
  using handle_event_canon [OF fresh_reachable_canon_inv [OF assms]] by (simp add: app_step_def)

theorem canonical_part_immutable_witness:
  "fresh_reachable (app_step init_state (Join_Type ''A'')) \<and>
   (\<exists>zs. map canon (messages (app_step (app_step init_state (Join_Type ''A'')) (Join_Submit ''ua'' 1000))) =
      map canon (messages (app_step init_state (Join_Type ''A''))) @ zs)"
proof -
  have h: "fresh_reachable (app_step init_state (Join_Type ''A''))"
    by (rule fresh_reachable.step [OF fresh_reachable.init]) (simp add: fresh_event_def created_id_def)
  show ?thesis using h canonical_part_immutable [OF h] by (rule conjI)
qed

text \<open>
  Claim C34. The specification's append-order property: on runs where created
  messages get fresh ids and the clock does not go back, the log is always sorted by
  timestamp, however many translations are pending or resolve in between.
\<close>

theorem log_sorted_by_timestamp:
  assumes "timed_reachable s"
  shows "sorted (map msg_timestamp (messages s))"
  using assms
proof (induction rule: timed_reachable.induct)
  case init
  show ?case by (simp add: init_state_def)
next
  case (step s e)
  have "canon_inv s" using step.hyps(1) by (intro fresh_reachable_canon_inv timed_reachable_fresh)
  from handle_event_sorted [OF this step.hyps(3) step.IH] show ?case by (simp add: app_step_def)
qed

theorem log_sorted_by_timestamp_witness:
  "timed_reachable (app_step (app_step init_state (Join_Type ''A'')) (Join_Submit ''ua'' 1000)) \<and>
   sorted (map msg_timestamp (messages (app_step (app_step init_state (Join_Type ''A'')) (Join_Submit ''ua'' 1000))))"
proof -
  have h0: "timed_reachable (app_step init_state (Join_Type ''A''))"
    by (rule timed_reachable.step [OF timed_reachable.init])
       (simp_all add: fresh_event_def created_id_def clock_ok_def created_time_def)
  have h: "timed_reachable (app_step (app_step init_state (Join_Type ''A'')) (Join_Submit ''ua'' 1000))"
    by (rule timed_reachable.step [OF h0])
       (simp_all add: app_eval_defs fresh_event_def created_id_def clock_ok_def created_time_def msg_ids_def)
  show ?thesis using h log_sorted_by_timestamp [OF h] by (rule conjI)
qed

end
