(* ===== verification/Session.thy ===== *)
theory Session
  imports Canonical
begin

text \<open>
  A session. \<open>session s0 s\<close> says that \<open>s\<close> is reached from \<open>s0\<close> by events that
  create messages with fresh ids (\<open>fresh_event\<close> of theory \<open>Canonical\<close>) and do
  not sign out, where \<open>s0\<close> is any state reached on fresh ids (page load, or any
  later point, after any number of sign-outs and sign-ins) at which no translation is
  pending. So a session covers a whole sign-in, including a second or later one, once
  the requests of the earlier panes have been answered; a state with a request of an
  earlier pane still pending is what theorems \<open>translation_cache_entry_lost\<close> and
  \<open>translator_called_twice_across_mounts\<close> start from. Within a session every pending
  request belongs to the mounted pane (\<open>sess_inv\<close>); each pending request's captured
  message is the current message of the log with that id, and its target language is
  absent from that message's cache (\<open>cur_inv\<close>); the code's write-back, which
  replaces the whole message, then coincides with the specification's set-if-absent
  \<open>updateTranslation\<close> (\<open>spec_update_translation\<close> of theory \<open>Bubble\<close>), and
  the calls of the translator made since \<open>s0\<close> stay settled (\<open>calls_ok\<close>).
\<close>

inductive session :: "chat_state \<Rightarrow> chat_state \<Rightarrow> bool" where
  start: "fresh_reachable s \<Longrightarrow> in_flight s = [] \<Longrightarrow> session s s"
| step: "session s0 s \<Longrightarrow> fresh_event s e \<Longrightarrow> e \<noteq> Logout \<Longrightarrow> session s0 (app_step s e)"

definition sess_inv :: "chat_state \<Rightarrow> bool" where
  "sess_inv s \<longleftrightarrow>
     (current_user s = None \<longrightarrow> in_flight s = []) \<and> (\<forall>r \<in> set (in_flight s). request_live s r)"

definition cur_inv :: "chat_state \<Rightarrow> bool" where
  "cur_inv s \<longleftrightarrow>
     (\<forall>r \<in> set (in_flight s). msg_translations (rq_msg r) (rq_lang r) = None \<and>
        (\<forall>m \<in> set (messages s). msg_id m = msg_id (rq_msg r) \<longrightarrow> m = rq_msg r))"

text \<open>
  A call of the translator for message \<open>m\<close> and language \<open>l\<close> is settled when the
  message is in the log and either a request for its id and \<open>l\<close> is pending or every
  message of the log with its id caches a non-empty \<open>l\<close> entry.
\<close>

definition call_settled :: "chat_state \<Rightarrow> message \<Rightarrow> lang_code \<Rightarrow> bool" where
  "call_settled s m l \<longleftrightarrow>
     msg_id m \<in> set (msg_ids (messages s)) \<and>
     ((\<exists>r \<in> set (in_flight s). msg_id (rq_msg r) = msg_id m \<and> rq_lang r = l) \<or>
      (\<forall>m' \<in> set (messages s). msg_id m' = msg_id m \<longrightarrow> js_opt_truthy (msg_translations m' l)))"

text \<open>\<open>calls_ok n s\<close>: the calls after the first \<open>n\<close> are settled and no two of them
  concern the same message id and language.\<close>

definition calls_ok :: "nat \<Rightarrow> chat_state \<Rightarrow> bool" where
  "calls_ok n s \<longleftrightarrow>
     n \<le> length (translator_calls s) \<and>
     distinct (map (\<lambda>(m, l). (msg_id m, l)) (drop n (translator_calls s))) \<and>
     (\<forall>(m, l) \<in> set (drop n (translator_calls s)). call_settled s m l)"

definition req_marked :: "chat_state \<Rightarrow> bool" where
  "req_marked s \<longleftrightarrow> (\<forall>r \<in> set (in_flight s). msg_id (rq_msg r) \<in> translating s)"

text \<open>
  The specification's Conversation Store (section 4.1) as operations on the id-indexed
  store \<open>store_of\<close> of theory \<open>Store\<close>: leave it, append a message with a new id,
  or \<open>updateTranslation(id, language, text)\<close>, which sets the entry only if it is not
  set. These are the abstract operations the application's steps are compared with.
\<close>

datatype store_op = Store_Keep | Store_Append message | Store_Update ident lang_code string

definition store_step :: "store_op \<Rightarrow> (ident \<rightharpoonup> message) \<Rightarrow> (ident \<rightharpoonup> message)" where
  "store_step op st =
     (case op of
        Store_Keep \<Rightarrow> st
      | Store_Append m \<Rightarrow> (if msg_id m \<in> dom st then st else st(msg_id m \<mapsto> m))
      | Store_Update i l t \<Rightarrow>
          (case st i of
             None \<Rightarrow> st
           | Some m \<Rightarrow>
               (if msg_translations m l = None
                then st(i \<mapsto> m\<lparr>msg_translations := (msg_translations m)(l \<mapsto> t)\<rparr>) else st)))"

text \<open>Runs on fresh ids, and runs on fresh ids without a sign-out.\<close>

fun fresh_events :: "chat_state \<Rightarrow> event list \<Rightarrow> bool" where
  "fresh_events s [] = True"
| "fresh_events s (e # es) = (fresh_event s e \<and> fresh_events (app_step s e) es)"

fun fresh_run :: "chat_state \<Rightarrow> event list \<Rightarrow> bool" where
  "fresh_run s [] = True"
| "fresh_run s (e # es) = (fresh_event s e \<and> e \<noteq> Logout \<and> fresh_run (app_step s e) es)"

text \<open>
  The runs of the witnesses: English user A says hello and signs out (\<open>handover_run\<close>,
  after which nothing is pending); then French user B signs in, and B's bubble for A's
  message asks for a French translation (\<open>second_signin_run\<close>).
\<close>

abbreviation handover_run :: "event list" where
  "handover_run \<equiv>
     [Join_Type ''A'', Join_Select 1, Join_Submit ''ua'' 1000, Chat_Type ''hello'',
      Chat_Submit ''m1'' 1001, Logout]"

abbreviation second_signin_run :: "event list" where
  "second_signin_run \<equiv> [Join_Type ''B'', Join_Select 3, Join_Submit ''ub'' 1002]"

section \<open>A session reaches only reachable, fresh states\<close>

lemma fresh_reachable_run: "fresh_reachable s \<Longrightarrow> fresh_events s es \<Longrightarrow> fresh_reachable (app_run s es)"
proof (induction es arbitrary: s)
  case Nil
  then show ?case by simp
next
  case (Cons e es)
  then show ?case by (simp add: fresh_reachable.step)
qed

lemma session_run: "session s0 s \<Longrightarrow> fresh_run s es \<Longrightarrow> session s0 (app_run s es)"
proof (induction es arbitrary: s)
  case Nil
  then show ?case by simp
next
  case (Cons e es)
  then show ?case by (simp add: session.step)
qed

lemma fresh_reachable_app_reachable: "fresh_reachable s \<Longrightarrow> app_reachable s"
  by (induction rule: fresh_reachable.induct) (auto intro: app_reachable.intros)

lemma session_fresh: "session s0 s \<Longrightarrow> fresh_reachable s \<and> app_reachable s"
proof (induction rule: session.induct)
  case (start s)
  then show ?case by (simp add: fresh_reachable_app_reachable)
next
  case (step s0 s e)
  then show ?case by (simp add: fresh_reachable.step app_reachable.step)
qed

lemma session_start_state: "session s0 s \<Longrightarrow> fresh_reachable s0 \<and> in_flight s0 = []"
  by (induction rule: session.induct) simp_all

section \<open>Every request belongs to the mounted pane\<close>

lemma sess_inv_bubble_effect:
  "sess_inv s \<Longrightarrow> current_user s = Some u \<Longrightarrow> sess_inv (bubble_effect u s m)"
  by (auto simp: sess_inv_def bubble_effect_def start_translation_def request_live_def)

lemma sess_inv_handle_event:
  assumes "sess_inv s" and "e \<noteq> Logout"
  shows "sess_inv (handle_event s e)"
proof (cases e)
  case (Join_Submit rand now)
  with assms(1) show ?thesis
    by (auto simp: sess_inv_def mount_chat_room_def handle_join_def split: option.splits)
next
  case (Chat_Submit rand now)
  with assms(1) show ?thesis
    by (auto simp: sess_inv_def handle_send_message_def request_live_def split: option.splits)
next
  case (Bot_Timer now)
  with assms(1) show ?thesis by (auto simp: sess_inv_def bot_fire_def request_live_def)
next
  case (Translation_Done i reply)
  have "request_live (complete_translation s i reply) = request_live s"
    by (rule request_live_eq) (simp_all add: complete_translation_keeps)
  with Translation_Done assms(1) complete_translation_frame [of s i reply] show ?thesis
    by (auto simp: sess_inv_def)
qed (use assms in \<open>auto simp: sess_inv_def request_live_def\<close>)

lemma sess_inv_app_step: "sess_inv s \<Longrightarrow> e \<noteq> Logout \<Longrightarrow> sess_inv (app_step s e)"
  unfolding app_step_def
  by (rule run_effects_invariant [where P = sess_inv])
     (auto intro: sess_inv_bubble_effect sess_inv_handle_event)

lemma session_sess_inv: "session s0 s \<Longrightarrow> sess_inv s"
proof (induction rule: session.induct)
  case (start s)
  then show ?case by (simp add: sess_inv_def)
next
  case (step s0 s e)
  from step.IH step.hyps(3) show ?case by (rule sess_inv_app_step)
qed

lemma sess_inv_ids_distinct:
  assumes "sess_inv s" and "dedup_inv s"
  shows "distinct (map (\<lambda>r. msg_id (rq_msg r)) (in_flight s))"
proof -
  from assms(1) have "filter (request_live s) (in_flight s) = in_flight s"
    by (simp add: sess_inv_def)
  with assms(2) show ?thesis by (simp add: dedup_inv_def live_ids_def)
qed

section \<open>Each pending request holds the current message\<close>

lemma msg_ok_untranslated:
  "msg_ok m \<Longrightarrow> \<not> js_opt_truthy (msg_translations m l) \<Longrightarrow> msg_translations m l = None"
  by (cases "msg_translations m l") (auto simp: msg_ok_def ran_def js_simps)

lemma cur_inv_frame:
  "cur_inv s \<Longrightarrow> messages s' = messages s \<Longrightarrow> set (in_flight s') \<subseteq> set (in_flight s) \<Longrightarrow> cur_inv s'"
  by (auto simp: cur_inv_def)

lemma cur_inv_bubble_effect:
  assumes "cur_inv s" and "text_inv s" and "canon_inv s" and "m \<in> set (messages s)"
  shows "cur_inv (bubble_effect u s m)"
proof (cases "effect_starts m u (msg_id m \<in> translating s)")
  case True
  from assms(2,4) have "msg_ok m" by (simp add: text_inv_def list_all_iff)
  moreover from True have "\<not> js_opt_truthy (msg_translations m (user_language u))"
    by (simp add: effect_starts_def needs_translation_def)
  ultimately have none: "msg_translations m (user_language u) = None"
    by (rule msg_ok_untranslated)
  have "m' = m" if "m' \<in> set (messages s)" and "msg_id m' = msg_id m" for m'
    using assms(3,4) that by (auto simp: canon_inv_def msg_ids_def distinct_map dest: inj_onD)
  with True assms(1) none show ?thesis
    by (auto simp: cur_inv_def bubble_effect_def start_translation_def)
next
  case False
  with assms(1) show ?thesis by (simp add: bubble_effect_def)
qed

lemma cur_inv_append:
  assumes "cur_inv s" and "canon_inv s" and "msg_id m \<notin> set (msg_ids (messages s))"
    and "messages s' = messages s @ [m]" and "in_flight s' = in_flight s"
  shows "cur_inv s'"
  using assms by (fastforce simp: cur_inv_def canon_inv_def)

lemma cur_inv_complete:
  assumes "cur_inv s" and "distinct (map (\<lambda>r. msg_id (rq_msg r)) (in_flight s))"
  shows "cur_inv (complete_translation s i reply)"
proof (cases "i < length (in_flight s)")
  case True
  show ?thesis unfolding cur_inv_def
  proof
    fix r assume r: "r \<in> set (in_flight (complete_translation s i reply))"
    then have r_rm: "r \<in> set (remove_nth i (in_flight s))"
      by (simp add: complete_translation_hit(2) [OF True])
    then have r0: "r \<in> set (in_flight s)" using set_remove_nth_subset by fastforce
    have ne: "msg_id (rq_msg r) \<noteq> msg_id (rq_msg (in_flight s ! i))"
      using remove_nth_other_key [OF assms(2) True r_rm] .
    have "m = rq_msg r" if "m \<in> set (messages (complete_translation s i reply))"
      and "msg_id m = msg_id (rq_msg r)" for m
    proof -
      from complete_translation_cases [OF True that(1)] that(2) ne have "m \<in> set (messages s)" by auto
      with assms(1) r0 that(2) show ?thesis by (simp add: cur_inv_def)
    qed
    with assms(1) r0 show "msg_translations (rq_msg r) (rq_lang r) = None \<and>
        (\<forall>m \<in> set (messages (complete_translation s i reply)).
           msg_id m = msg_id (rq_msg r) \<longrightarrow> m = rq_msg r)"
      by (simp add: cur_inv_def)
  qed
next
  case False
  with assms(1) show ?thesis by (simp add: complete_translation_def)
qed

lemma cur_inv_handle_event:
  assumes "cur_inv s" and "canon_inv s" and "sess_inv s" and "dedup_inv s" and "fresh_event s e"
  shows "cur_inv (handle_event s e)"
proof (cases "\<exists>i reply. e = Translation_Done i reply")
  case True
  with cur_inv_complete [OF assms(1) sess_inv_ids_distinct [OF assms(3,4)]] show ?thesis by auto
next
  case False
  then have "in_flight (handle_event s e) = in_flight s \<and>
      (messages (handle_event s e) = messages s \<or>
       (\<exists>m. messages (handle_event s e) = messages s @ [m] \<and> created_id e = Some (msg_id m)))"
    using handle_event_shape [of e s] by auto
  then show ?thesis
  proof (elim conjE disjE exE)
    assume "in_flight (handle_event s e) = in_flight s" and "messages (handle_event s e) = messages s"
    then show ?thesis by (intro cur_inv_frame [OF assms(1)]) simp_all
  next
    fix m assume "in_flight (handle_event s e) = in_flight s"
      and "messages (handle_event s e) = messages s @ [m]" and "created_id e = Some (msg_id m)"
    with fresh_event_created [OF assms(5)] show ?thesis
      by (intro cur_inv_append [OF assms(1,2)]) auto
  qed
qed

lemma session_cur_inv: "session s0 s \<Longrightarrow> cur_inv s"
proof (induction rule: session.induct)
  case (start s)
  then show ?case by (simp add: cur_inv_def)
next
  case (step s0 s e)
  from session_fresh [OF step.hyps(1)]
  have f: "fresh_reachable s" and r: "app_reachable s" by simp_all
  let ?P = "\<lambda>t. cur_inv t \<and> text_inv t \<and> canon_inv t"
  have "?P (handle_event s e)"
    using cur_inv_handle_event [OF step.IH fresh_reachable_canon_inv [OF f] session_sess_inv [OF step.hyps(1)]
        reachable_dedup_inv [OF r] step.hyps(2)]
      text_inv_handle_event [OF reachable_text_inv [OF r]]
      canon_inv_handle_event [OF fresh_reachable_canon_inv [OF f] step.hyps(2)]
    by simp
  then have "?P (app_step s e)"
    unfolding app_step_def
    by (rule run_effects_invariant [where P = ?P, rotated])
       (auto intro: cur_inv_bubble_effect text_inv_bubble_effect canon_inv_bubble_effect)
  then show ?case by simp
qed

lemma complete_spec_update:
  assumes "cur_inv s" and "i < length (in_flight s)"
  shows "messages (complete_translation s i reply) =
           spec_update_translation (messages s) (msg_id (rq_msg (in_flight s ! i)))
             (rq_lang (in_flight s ! i)) (translate_result reply (msg_text (rq_msg (in_flight s ! i))))"
proof -
  let ?r = "in_flight s ! i"
  let ?t = "translate_result reply (msg_text (rq_msg ?r))"
  have r: "?r \<in> set (in_flight s)" using assms(2) by (rule nth_mem)
  with assms(1)
  have none: "msg_translations (rq_msg ?r) (rq_lang ?r) = None"
    and cur: "\<And>m. m \<in> set (messages s) \<Longrightarrow> msg_id m = msg_id (rq_msg ?r) \<Longrightarrow> m = rq_msg ?r"
    by (auto simp: cur_inv_def)
  have "messages (complete_translation s i reply) =
          update_message (messages s) (translated_message (rq_msg ?r) (rq_lang ?r) ?t)"
    by (rule complete_translation_hit(1) [OF assms(2)])
  also have "\<dots> = spec_update_translation (messages s) (msg_id (rq_msg ?r)) (rq_lang ?r) ?t"
    unfolding update_message_def spec_update_translation_def
    by (rule map_cong) (auto simp: none translated_message_def dest: cur)
  finally show ?thesis .
qed

section \<open>The steps of a session on the abstract store\<close>

lemma store_of_map_same_id:
  "(\<And>m. msg_id (f m) = msg_id m) \<Longrightarrow> store_of (map f ms) = map_option f \<circ> store_of ms"
proof -
  assume f: "\<And>m. msg_id (f m) = msg_id m"
  have "map (\<lambda>m. (msg_id m, m)) (map f ms) = map (\<lambda>(k, v). (k, f v)) (map (\<lambda>m. (msg_id m, m)) ms)"
    by (simp add: f)
  then show ?thesis unfolding store_of_def by (simp only: map_of_map)
qed

lemma store_of_Some_id: "store_of ms k = Some m \<Longrightarrow> msg_id m = k"
  by (auto simp: store_of_def dest: map_of_SomeD)

lemma store_of_spec_update:
  "store_of (spec_update_translation ms i l t) = store_step (Store_Update i l t) (store_of ms)"
proof
  fix k
  have "store_of (spec_update_translation ms i l t) =
          map_option (\<lambda>m. if msg_id m = i \<and> msg_translations m l = None
                          then m\<lparr>msg_translations := (msg_translations m)(l \<mapsto> t)\<rparr> else m) \<circ> store_of ms"
    unfolding spec_update_translation_def by (rule store_of_map_same_id) simp
  then have eq: "store_of (spec_update_translation ms i l t) k =
      map_option (\<lambda>m. if msg_id m = i \<and> msg_translations m l = None
                      then m\<lparr>msg_translations := (msg_translations m)(l \<mapsto> t)\<rparr> else m) (store_of ms k)"
    by simp
  show "store_of (spec_update_translation ms i l t) k = store_step (Store_Update i l t) (store_of ms) k"
  proof (cases "store_of ms k")
    case None
    with eq show ?thesis by (auto simp: store_step_def split: option.splits)
  next
    case (Some a)
    then have k: "k = msg_id a" by (simp add: store_of_Some_id)
    from eq Some show ?thesis unfolding k by (auto simp: store_step_def split: option.splits)
  qed
qed

lemma handle_event_log_cases:
  "(\<forall>i reply. e \<noteq> Translation_Done i reply) \<Longrightarrow>
   messages (handle_event s e) = messages s \<or> (\<exists>m. messages (handle_event s e) = append_message (messages s) m)"
  by (cases e)
     (auto simp: mount_chat_room_def handle_join_def handle_send_message_def bot_fire_def logout_def
        split: option.splits)

lemma app_step_store_op:
  assumes "cur_inv s"
  shows "\<exists>op. store_of (messages (app_step s e)) = store_step op (store_of (messages s))"
proof (cases "\<exists>i reply. e = Translation_Done i reply")
  case True
  then obtain i reply where e: "e = Translation_Done i reply" by blast
  show ?thesis
  proof (cases "i < length (in_flight s)")
    case True
    with e complete_spec_update [OF assms True, of reply] show ?thesis
      by (auto simp: app_step_def store_of_spec_update)
  next
    case False
    with e have "messages (app_step s e) = messages s"
      by (simp add: app_step_def complete_translation_def)
    then show ?thesis by (intro exI [of _ Store_Keep]) (simp add: store_step_def)
  qed
next
  case False
  then have "messages (app_step s e) = messages s \<or>
      (\<exists>m. messages (app_step s e) = append_message (messages s) m)"
    using handle_event_log_cases [of e s] by (simp add: app_step_def)
  then show ?thesis
  proof
    assume "messages (app_step s e) = messages s"
    then show ?thesis by (intro exI [of _ Store_Keep]) (simp add: store_step_def)
  next
    assume "\<exists>m. messages (app_step s e) = append_message (messages s) m"
    then obtain m where "messages (app_step s e) = append_message (messages s) m" by blast
    then show ?thesis
      by (intro exI [of _ "Store_Append m"]) (simp add: store_step_def store_of_append_message)
  qed
qed

lemma store_step_keeps_entries:
  "st i = Some m \<Longrightarrow> msg_translations m l = Some v \<Longrightarrow>
   \<exists>m'. store_step op st i = Some m' \<and> msg_translations m' l = Some v \<and> canon m' = canon m"
  by (cases op) (auto simp: store_step_def canon_def split: option.splits)

section \<open>Properties\<close>

text \<open>The start of the witnesses' session: A has signed out and nothing is pending.\<close>

lemma handover_start:
  "fresh_reachable (app_run init_state handover_run) \<and> in_flight (app_run init_state handover_run) = []"
proof
  show "fresh_reachable (app_run init_state handover_run)"
    by (rule fresh_reachable_run [OF fresh_reachable.init])
       (simp add: app_eval_defs fresh_event_def created_id_def msg_ids_def show_int_inj)
  show "in_flight (app_run init_state handover_run) = []"
    by (simp add: app_eval_defs)
qed

lemma handover_session:
  "fresh_run (app_run init_state handover_run) es \<Longrightarrow>
   session (app_run init_state handover_run) (app_run (app_run init_state handover_run) es)"
  using handover_start by (intro session_run session.start) simp_all

text \<open>
  Claim C31. Refinement of the specification's \<open>updateTranslation\<close> within a
  session (from any state on fresh ids with nothing pending, by events on fresh ids
  without a sign-out; a second or later sign-in included): answering any pending request
  changes the log exactly as the specification's set-if-absent update of the request's
  message id and language with the translator's result.
\<close>

theorem writeback_refines_spec_update:
  assumes "session s0 s" and "i < length (in_flight s)"
  shows "messages (app_step s (Translation_Done i reply)) =
           spec_update_translation (messages s) (msg_id (rq_msg (in_flight s ! i)))
             (rq_lang (in_flight s ! i)) (translate_result reply (msg_text (rq_msg (in_flight s ! i))))"
  using complete_spec_update [OF session_cur_inv [OF assms(1)] assms(2), of reply]
  by (simp add: app_step_def)

theorem writeback_refines_spec_update_witness:
  "session (app_run init_state handover_run) (app_run (app_run init_state handover_run) second_signin_run) \<and>
   0 < length (in_flight (app_run (app_run init_state handover_run) second_signin_run)) \<and>
   messages (app_step (app_run (app_run init_state handover_run) second_signin_run)
       (Translation_Done 0 (Reply_Text (Some ''bonjour'')))) =
     spec_update_translation (messages (app_run (app_run init_state handover_run) second_signin_run))
       (msg_id (rq_msg (in_flight (app_run (app_run init_state handover_run) second_signin_run) ! 0)))
       (rq_lang (in_flight (app_run (app_run init_state handover_run) second_signin_run) ! 0))
       (translate_result (Reply_Text (Some ''bonjour''))
         (msg_text (rq_msg (in_flight (app_run (app_run init_state handover_run) second_signin_run) ! 0))))"
proof -
  have h1: "session (app_run init_state handover_run) (app_run (app_run init_state handover_run) second_signin_run)"
    by (rule handover_session)
       (simp add: app_eval_defs fresh_event_def created_id_def msg_ids_def show_int_inj)
  have h2: "0 < length (in_flight (app_run (app_run init_state handover_run) second_signin_run))"
    by (simp add: app_eval_defs)
  show ?thesis
    by (rule conjI [OF h1 conjI [OF h2 writeback_refines_spec_update [OF h1 h2]]])
qed

section \<open>Within a session the translator is called once per message and language\<close>

lemma req_marked_of: "dedup_inv s \<Longrightarrow> sess_inv s \<Longrightarrow> req_marked s"
  by (auto simp: req_marked_def dedup_inv_def sess_inv_def live_ids_def)

lemma call_settled_grow:
  "call_settled s m l \<Longrightarrow> messages s' = messages s \<Longrightarrow> set (in_flight s) \<subseteq> set (in_flight s') \<Longrightarrow>
   call_settled s' m l"
  by (auto simp: call_settled_def)

lemma call_settled_append:
  assumes "call_settled s m l" and "messages s' = messages s @ [x]"
    and "msg_id x \<notin> set (msg_ids (messages s))" and "in_flight s' = in_flight s"
  shows "call_settled s' m l"
proof -
  from assms(1,3) have "msg_id x \<noteq> msg_id m" by (auto simp: call_settled_def)
  with assms show ?thesis by (auto simp: call_settled_def msg_ids_def)
qed

lemma request_current:
  "cur_inv s \<Longrightarrow> canon_inv s \<Longrightarrow> r \<in> set (in_flight s) \<Longrightarrow> rq_msg r \<in> set (messages s)"
  by (fastforce simp: cur_inv_def canon_inv_def msg_ids_def)

text \<open>The entry an answer writes is cached, and every entry the answered message had
  stays cached.\<close>

lemma complete_cached:
  assumes "cur_inv s" and "canon_inv s" and "text_inv s" and "i < length (in_flight s)"
    and "m' \<in> set (messages (complete_translation s i reply))"
    and "msg_id m' = msg_id (rq_msg (in_flight s ! i))"
  shows "js_opt_truthy (msg_translations m' (rq_lang (in_flight s ! i))) \<and>
         (\<forall>l. js_opt_truthy (msg_translations (rq_msg (in_flight s ! i)) l) \<longrightarrow>
              js_opt_truthy (msg_translations m' l))"
proof -
  let ?r = "in_flight s ! i"
  have r: "?r \<in> set (in_flight s)" using assms(4) by (rule nth_mem)
  have "js_truthy (translate_result reply (msg_text (rq_msg ?r)))"
    using assms(3) r by (simp add: text_inv_def list_all_iff msg_ok_def translate_result_truthy)
  moreover from complete_translation_cases [OF assms(4,5)] assms(6)
  have "m' = translated_message (rq_msg ?r) (rq_lang ?r) (translate_result reply (msg_text (rq_msg ?r)))"
    by auto
  ultimately show ?thesis by (auto simp: js_simps)
qed

lemma call_settled_complete:
  assumes "call_settled s m l" and "cur_inv s" and "canon_inv s" and "text_inv s"
    and "distinct (map (\<lambda>r. msg_id (rq_msg r)) (in_flight s))"
  shows "call_settled (complete_translation s i reply) m l"
proof (cases "i < length (in_flight s)")
  case True
  let ?r = "in_flight s ! i"
  let ?s' = "complete_translation s i reply"
  have ids: "msg_id m \<in> set (msg_ids (messages ?s'))"
    using assms(1) complete_translation_hit(1) [OF True] by (simp add: call_settled_def)
  from assms(1) consider
      (pending) r' where "r' \<in> set (in_flight s)" "msg_id (rq_msg r') = msg_id m" "rq_lang r' = l"
    | (cached) "\<forall>m' \<in> set (messages s). msg_id m' = msg_id m \<longrightarrow> js_opt_truthy (msg_translations m' l)"
    unfolding call_settled_def by blast
  then show ?thesis
  proof cases
    case (pending r')
    show ?thesis
    proof (cases "r' = ?r")
      case True
      with pending complete_cached [OF assms(2,3,4) \<open>i < length (in_flight s)\<close>] ids show ?thesis
        by (simp add: call_settled_def)
    next
      case False
      with pending have "r' \<in> set (in_flight ?s')"
        using set_remove_nth [OF \<open>i < length (in_flight s)\<close>] complete_translation_hit(2) [OF True] by auto
      with ids pending show ?thesis unfolding call_settled_def by blast
    qed
  next
    case cached
    have "js_opt_truthy (msg_translations m' l)" if "m' \<in> set (messages ?s')" and "msg_id m' = msg_id m" for m'
    proof (cases "msg_id m' = msg_id (rq_msg ?r)")
      case True
      have "rq_msg ?r \<in> set (messages s)" using assms(2,3) nth_mem [OF \<open>i < length (in_flight s)\<close>]
        by (rule request_current)
      with cached True that(2) have "js_opt_truthy (msg_translations (rq_msg ?r) l)" by auto
      with complete_cached [OF assms(2,3,4) \<open>i < length (in_flight s)\<close> that(1) True] show ?thesis by blast
    next
      case False
      with complete_translation_cases [OF \<open>i < length (in_flight s)\<close> that(1)] cached that(2) show ?thesis
        by auto
    qed
    with ids show ?thesis by (simp add: call_settled_def)
  qed
next
  case False
  with assms(1) show ?thesis by (simp add: complete_translation_def)
qed

lemma calls_ok_frame:
  assumes "calls_ok n s" and "messages s' = messages s" and "in_flight s' = in_flight s"
    and "translator_calls s' = translator_calls s"
  shows "calls_ok n s'"
  using assms unfolding calls_ok_def call_settled_def by auto

lemma calls_ok_append:
  assumes "calls_ok n s" and "messages s' = messages s @ [x]"
    and "msg_id x \<notin> set (msg_ids (messages s))" and "in_flight s' = in_flight s"
    and "translator_calls s' = translator_calls s"
  shows "calls_ok n s'"
proof -
  have "call_settled s' m l" if "(m, l) \<in> set (drop n (translator_calls s))" for m l
  proof (rule call_settled_append [OF _ assms(2-4)])
    from assms(1) that show "call_settled s m l" by (auto simp: calls_ok_def)
  qed
  with assms(1,5) show ?thesis by (auto simp: calls_ok_def)
qed

lemma calls_ok_bubble_effect:
  assumes "calls_ok n s" and "req_marked s" and "current_user s = Some u" and "m \<in> set (messages s)"
  shows "calls_ok n (bubble_effect u s m) \<and> req_marked (bubble_effect u s m)"
proof (cases "effect_starts m u (msg_id m \<in> translating s)")
  case True
  let ?s' = "start_translation u s m"
  from True have nt: "msg_id m \<notin> translating s"
    and nd: "\<not> js_opt_truthy (msg_translations m (user_language u))"
    by (simp_all add: effect_starts_def needs_translation_def)
  have fresh: "(msg_id m, user_language u) \<notin> set (map (\<lambda>(m, l). (msg_id m, l)) (drop n (translator_calls s)))"
  proof
    assume "(msg_id m, user_language u) \<in> set (map (\<lambda>(m, l). (msg_id m, l)) (drop n (translator_calls s)))"
    then obtain m0 where c: "(m0, user_language u) \<in> set (drop n (translator_calls s))"
      and eq: "msg_id m0 = msg_id m"
      by auto
    from assms(1) c have "call_settled s m0 (user_language u)" by (auto simp: calls_ok_def)
    then consider (pending) r where "r \<in> set (in_flight s)" "msg_id (rq_msg r) = msg_id m0"
      | (cached) "\<forall>m' \<in> set (messages s). msg_id m' = msg_id m0 \<longrightarrow>
                    js_opt_truthy (msg_translations m' (user_language u))"
      unfolding call_settled_def by blast
    then show False
    proof cases
      case pending
      with assms(2) eq nt show False by (auto simp: req_marked_def)
    next
      case cached
      with assms(4) eq nd show False by auto
    qed
  qed
  have be: "bubble_effect u s m = ?s'" using True by (simp add: bubble_effect_def)
  have n: "n \<le> length (translator_calls s)" using assms(1) by (simp add: calls_ok_def)
  have calls': "drop n (translator_calls ?s') = drop n (translator_calls s) @ [(m, user_language u)]"
    and len': "n \<le> length (translator_calls ?s')"
    and msgs': "messages ?s' = messages s"
    and fl': "in_flight ?s' = in_flight s @ [\<lparr>rq_msg = m, rq_lang = user_language u, rq_mount = mount s\<rparr>]"
    and tr': "translating ?s' = insert (msg_id m) (translating s)"
    using n by (simp_all add: start_translation_def)
  have old: "call_settled ?s' m' l" if "(m', l) \<in> set (drop n (translator_calls s))" for m' l
  proof (rule call_settled_grow [OF _ msgs'])
    from assms(1) that show "call_settled s m' l" by (auto simp: calls_ok_def)
    show "set (in_flight s) \<subseteq> set (in_flight ?s')" by (auto simp: fl')
  qed
  have new: "call_settled ?s' m (user_language u)"
    using assms(4) unfolding call_settled_def msgs' fl' by (auto simp: msg_ids_def)
  have "calls_ok n ?s'"
    using assms(1) fresh old new len' unfolding calls_ok_def calls' by auto
  moreover have "req_marked ?s'"
    using assms(2) unfolding req_marked_def fl' tr' by auto
  ultimately show ?thesis by (simp add: be)
next
  case False
  with assms(1,2) show ?thesis by (simp add: bubble_effect_def)
qed

lemma calls_ok_handle_event:
  assumes "calls_ok n s" and "cur_inv s" and "canon_inv s" and "text_inv s" and "sess_inv s"
    and "dedup_inv s" and "fresh_event s e"
  shows "calls_ok n (handle_event s e)"
proof (cases "\<exists>i reply. e = Translation_Done i reply")
  case True
  then obtain i reply where e: "e = Translation_Done i reply" by blast
  note d = sess_inv_ids_distinct [OF assms(5,6)]
  have "call_settled (complete_translation s i reply) m l"
    if "(m, l) \<in> set (drop n (translator_calls s))" for m l
  proof (rule call_settled_complete [OF _ assms(2,3,4) d])
    from assms(1) that show "call_settled s m l" by (auto simp: calls_ok_def)
  qed
  moreover have "translator_calls (complete_translation s i reply) = translator_calls s"
    using complete_translation_frame [of s i reply] by simp
  ultimately show ?thesis
    using e assms(1) unfolding calls_ok_def by auto
next
  case False
  from False have "in_flight (handle_event s e) = in_flight s \<and>
      translator_calls (handle_event s e) = translator_calls s \<and>
      (messages (handle_event s e) = messages s \<or>
       (\<exists>m. messages (handle_event s e) = messages s @ [m] \<and> created_id e = Some (msg_id m)))"
    using handle_event_shape [of e s] by auto
  then show ?thesis
  proof (elim conjE disjE exE)
    assume "in_flight (handle_event s e) = in_flight s"
      and "translator_calls (handle_event s e) = translator_calls s"
      and "messages (handle_event s e) = messages s"
    then show ?thesis by (intro calls_ok_frame [OF assms(1)])
  next
    fix m assume "in_flight (handle_event s e) = in_flight s"
      and "translator_calls (handle_event s e) = translator_calls s"
      and "messages (handle_event s e) = messages s @ [m]" and "created_id e = Some (msg_id m)"
    with fresh_event_created [OF assms(7)] show ?thesis
      by (intro calls_ok_append [OF assms(1)]) auto
  qed
qed

lemma session_calls_ok: "session s0 s \<Longrightarrow> calls_ok (length (translator_calls s0)) s"
proof (induction rule: session.induct)
  case (start s)
  show ?case by (simp add: calls_ok_def)
next
  case (step s0 s e)
  from session_fresh [OF step.hyps(1)]
  have f: "fresh_reachable s" and r: "app_reachable s" by simp_all
  let ?P = "\<lambda>t. calls_ok (length (translator_calls s0)) t \<and> req_marked t"
  have "?P (handle_event s e)"
    using calls_ok_handle_event [OF step.IH session_cur_inv [OF step.hyps(1)]
        fresh_reachable_canon_inv [OF f] reachable_text_inv [OF r] session_sess_inv [OF step.hyps(1)]
        reachable_dedup_inv [OF r] step.hyps(2)]
      req_marked_of [OF dedup_inv_handle_event [OF reachable_dedup_inv [OF r]]
        sess_inv_handle_event [OF session_sess_inv [OF step.hyps(1)] step.hyps(3)]]
    by simp
  then have "?P (app_step s e)"
    unfolding app_step_def
    by (rule run_effects_invariant [where P = ?P, rotated]) (auto dest: calls_ok_bubble_effect)
  then show ?case by simp
qed

text \<open>
  Claim C32. The specification's deduplication property holds within a session (from
  any state on fresh ids with nothing pending, by events on fresh ids without a
  sign-out; a second or later sign-in included): the calls of the translator made
  since the session began concern each message id and language at most once, however
  the answers interleave and whether they fail or not. Theorem
  \<open>translator_called_twice_across_mounts\<close> shows that a sign-out while a request is
  pending and a second sign-in break it.
\<close>

theorem session_translates_once:
  assumes "session s0 s"
  shows "distinct (map (\<lambda>(m, l). (msg_id m, l)) (drop (length (translator_calls s0)) (translator_calls s)))"
  using session_calls_ok [OF assms] by (simp add: calls_ok_def)

theorem session_translates_once_witness:
  "session (app_run init_state handover_run) (app_run (app_run init_state handover_run) (second_signin_run @ [Translation_Done 0 Reply_Throws, Chat_Type ''f''])) \<and>
   distinct (map (\<lambda>(m, l). (msg_id m, l)) (drop (length (translator_calls (app_run init_state handover_run)))
     (translator_calls (app_run (app_run init_state handover_run) (second_signin_run @ [Translation_Done 0 Reply_Throws, Chat_Type ''f''])))))"
proof -
  have h: "session (app_run init_state handover_run) (app_run (app_run init_state handover_run) (second_signin_run @ [Translation_Done 0 Reply_Throws, Chat_Type ''f'']))"
    by (rule handover_session)
       (simp add: app_eval_defs fresh_event_def created_id_def msg_ids_def show_int_inj)
  show ?thesis using h session_translates_once [OF h] by (rule conjI)
qed

text \<open>
  Claim C36. Simulation of the specification's Conversation Store within a session:
  every step of the application from a state of a session (any event, translations
  resolving in any order included) changes the id-indexed store by one of the
  specification's operations: none, appending a message under a new id, or the
  set-if-absent \<open>updateTranslation\<close>.
\<close>

theorem session_step_simulates_store:
  assumes "session s0 s"
  shows "\<exists>op. store_of (messages (app_step s e)) = store_step op (store_of (messages s))"
  using session_cur_inv [OF assms] by (rule app_step_store_op)

theorem session_step_simulates_store_witness:
  "session (app_run init_state handover_run) (app_run (app_run init_state handover_run) second_signin_run) \<and>
   (\<exists>op. store_of (messages (app_step (app_run (app_run init_state handover_run) second_signin_run) (Translation_Done 0 Reply_Throws))) =
      store_step op (store_of (messages (app_run (app_run init_state handover_run) second_signin_run))))"
proof -
  have h: "session (app_run init_state handover_run) (app_run (app_run init_state handover_run) second_signin_run)"
    by (rule handover_session)
       (simp add: app_eval_defs fresh_event_def created_id_def msg_ids_def show_int_inj)
  show ?thesis using h session_step_simulates_store [OF h] by (rule conjI)
qed

text \<open>
  Claim C37. The specification's monotonic cache holds within a session: once the
  message stored under an id caches a translation for a language, the next step,
  whatever event it is, keeps a message under that id with the same canonical part and
  the same cached translation. Theorem \<open>translation_cache_entry_lost\<close> shows that
  a sign-out while a request is pending and a second sign-in break it.
\<close>

theorem session_cache_monotone:
  assumes "session s0 s" and "store_of (messages s) i = Some m"
    and "msg_translations m l = Some v"
  shows "\<exists>m'. store_of (messages (app_step s e)) i = Some m' \<and>
           msg_translations m' l = Some v \<and> canon m' = canon m"
proof -
  obtain op where "store_of (messages (app_step s e)) = store_step op (store_of (messages s))"
    using app_step_store_op [OF session_cur_inv [OF assms(1)]] by blast
  with store_step_keeps_entries [where st = "store_of (messages s)", OF assms(2,3)] show ?thesis
    by simp
qed

theorem session_cache_monotone_witness:
  "session (app_run init_state handover_run) (app_run (app_run init_state handover_run) (second_signin_run @ [Translation_Done 0 (Reply_Text (Some ''bonjour''))])) \<and>
   store_of (messages (app_run (app_run init_state handover_run) (second_signin_run @ [Translation_Done 0 (Reply_Text (Some ''bonjour''))])))
     ''msg-m1'' =
     Some (messages (app_run (app_run init_state handover_run) (second_signin_run @ [Translation_Done 0 (Reply_Text (Some ''bonjour''))])) ! 1) \<and>
   msg_translations (messages (app_run (app_run init_state handover_run) (second_signin_run @ [Translation_Done 0 (Reply_Text (Some ''bonjour''))])) ! 1)
     ''fr'' = Some ''bonjour'' \<and>
   (\<exists>m'. store_of (messages (app_step (app_run (app_run init_state handover_run) (second_signin_run @
        [Translation_Done 0 (Reply_Text (Some ''bonjour''))])) Logout)) ''msg-m1'' = Some m' \<and>
      msg_translations m' ''fr'' = Some ''bonjour'' \<and>
      canon m' = canon (messages (app_run (app_run init_state handover_run) (second_signin_run @ [Translation_Done 0 (Reply_Text (Some ''bonjour''))])) ! 1))"
proof -
  have h1: "session (app_run init_state handover_run) (app_run (app_run init_state handover_run) (second_signin_run @ [Translation_Done 0 (Reply_Text (Some ''bonjour''))]))"
    by (rule handover_session)
       (simp add: app_eval_defs fresh_event_def created_id_def msg_ids_def show_int_inj)
  have h2: "store_of (messages (app_run (app_run init_state handover_run) (second_signin_run @ [Translation_Done 0 (Reply_Text (Some ''bonjour''))])))
     ''msg-m1'' =
     Some (messages (app_run (app_run init_state handover_run) (second_signin_run @ [Translation_Done 0 (Reply_Text (Some ''bonjour''))])) ! 1)"
    by (simp add: app_eval_defs store_of_def)
  have h3: "msg_translations (messages (app_run (app_run init_state handover_run) (second_signin_run @ [Translation_Done 0 (Reply_Text (Some ''bonjour''))])) ! 1)
     ''fr'' = Some ''bonjour''"
    by (simp add: app_eval_defs js_simps js_truthy_def js_trim_def js_ws_def)
  show ?thesis
    by (rule conjI [OF h1 conjI [OF h2 conjI [OF h3 session_cache_monotone [OF h1 h2 h3]]]])
qed

end
