(* ===== verification/Spec2Isabelle.thy ===== *)
theory Spec2Isabelle
  imports Views Session
begin

text \<open>
  \<^bold>\<open>PolyglotChat: a verification model.\<close>

  \<^emph>\<open>The program.\<close> A React single-page chat (\<open>src/\<close>) in which every message
  is shown to the signed-in user in that user's language, translated on demand by a
  text-generation API. \<open>App\<close> (\<open>src/App.tsx\<close>) owns the signed-in user and the
  message log and mounts either the join form (\<open>src/components/JoinScreen.tsx\<close>) or
  the chat pane (\<open>src/components/ChatRoom.tsx\<close>), which renders one
  \<open>MessageBubble\<close> per message (\<open>src/components/MessageBubble.tsx\<close>). A bubble
  decides whether its message needs a translation into the viewer's language, calls
  \<open>translateText\<close> (\<open>src/services/gemini.ts\<close>) and, when the call resolves, writes
  the message back through \<open>App\<close>'s \<open>handleUpdateMessage\<close> with the new entry in
  its \<open>translations\<close> cache. \<open>src/types.ts\<close> holds the records and the language
  registry. The components interact by callbacks (\<open>onJoin\<close>, \<open>onSendMessage\<close>,
  \<open>onUpdate\<close>, \<open>onLogout\<close>) and by React state; the only asynchrony is the
  translation call and the bot's \<open>setTimeout\<close>.

  \<^emph>\<open>The theories.\<close>
  \<^item> \<open>Prelude\<close>: the JavaScript primitives the code relies on, read in HOL
    (\<open>trim\<close> as \<open>js_trim\<close>, string truthiness and \<open>||\<close> as \<open>js_truthy\<close>,
    \<open>js_or\<close>, \<open>js_opt_or\<close>, a number in a string as \<open>show_int\<close>), with their
    lemmas (trim is idempotent and leaves no blank ends; decimal printing is injective,
    by a parse-back round trip), and the list lemmas the invariant proofs share.
  \<^item> \<open>Types\<close>: \<open>User\<close>, \<open>Message\<close>, \<open>LanguageOption\<close> as records and
    \<open>SUPPORTED_LANGUAGES\<close> (labels and flags as UTF-8 bytes).
  \<^item> \<open>Gemini\<close>: \<open>translateText\<close>: the request it builds (\<open>generate_request\<close>,
    \<open>translation_prompt\<close>) and the mapping of the provider's answer to a string
    (\<open>translate_result\<close>); the provider is a parameter, so every lemma holds for any
    behaviour of the remote service. Lemmas: fail-soft (a non-empty text never
    translates to an empty string), the catch branch returns the input.
  \<^item> \<open>Store\<close>: the log of \<open>App\<close>: the three message constructors of \<open>App.tsx\<close>
    (\<open>welcome_message\<close> of \<open>handleJoin\<close>, \<open>new_message\<close> of
    \<open>handleSendMessage\<close>, \<open>bot_message\<close> of the timer), \<open>append_message\<close> and
    \<open>update_message\<close> (\<open>handleUpdateMessage\<close>). Lemmas: ids and order are kept by
    an update, an update of an absent id is a no-op, and the refinement of both
    operations to map updates of the id-indexed store \<open>store_of\<close>.
  \<^item> \<open>Bubble\<close>: \<open>MessageBubble\<close>'s derived values (\<open>is_mine\<close>,
    \<open>is_system\<close>, \<open>displayed_text\<close>, \<open>needs_translation\<close>), the effect's guard
    (\<open>effect_starts\<close>), the message written back (\<open>translated_message\<close>) and the
    rendering (\<open>bubble_view\<close>). Lemmas: same-language messages show their text and are
    never translated, a stored non-empty translation is a cache hit, and the write-back
    refines the specification's set-if-absent \<open>updateTranslation\<close> (defined here as
    \<open>spec_update_translation\<close>, an update of the stored message's cache written
    without the code's \<open>translated_message\<close>) when the captured message is current.
  \<^item> \<open>JoinScreen\<close>, \<open>ChatRoom\<close>: the submit handlers with their early returns on
    blank input (\<open>join_submit\<close>, \<open>chat_submit\<close>); what they render is in
    \<open>Views\<close>.
  \<^item> \<open>App\<close>: the application as a deterministic step function \<open>app_step\<close> over a
    record \<open>chat_state\<close> of all React state plus the pending asynchronous work, driven
    by an \<open>event\<close> datatype (keystrokes, clicks, timer, provider answers in any order),
    with \<open>app_run\<close> over event lists and the inductive \<open>app_reachable\<close>. After
    every handler the bubbles' effects run (\<open>run_effects\<close>). Invariants, each proved
    by one preservation lemma per kind of event and rule induction over
    \<open>app_reachable\<close>: \<open>dedup_inv\<close> (the bubbles marked translating are exactly
    the mounted ones with a pending request, no id twice), \<open>calls_inv\<close> (the
    translator is never called for system or same-language messages), \<open>text_inv\<close>
    (texts and cached translations are non-empty), \<open>bot_inv\<close> (one bot reply at
    most). The log is append-only over every run.
  \<^item> \<open>Progress\<close>: what the effect pass achieves. It saturates (after every event,
    each message that needs a translation for the signed-in user has its bubble marked,
    \<open>saturated\<close>); with distinct ids it equals the declarative \<open>effects_spec\<close>;
    answering a request decreases \<open>drain_measure\<close> (twice the stale requests plus the
    live ones), so answering the oldest request \<open>2 * length in_flight\<close> times leaves
    nothing pending and every message translated for the user; and the live requests
    are exactly as many as the marked bubbles, at most one per message of the log.
  \<^item> \<open>Views\<close>: what is rendered: the join form (\<open>join_view\<close>, one
    \<open>join_button\<close> per registry language), the chat pane (\<open>chat_view\<close>, one
    \<open>bubble_view\<close> per message keyed by id) and \<open>App\<close>'s choice of the two
    (\<open>app_view\<close>). Lemmas: the selected language always belongs to the registry, so
    exactly one language button is highlighted; clicking a button highlights that one;
    a bubble whose message needs a translation shows the typing indicator, never the
    untranslated original; signing out shows a fresh join form and cancels nothing.
  \<^item> \<open>Canonical\<close>: the specification's first invariant. On runs where each created
    message gets an id not yet in the log (\<open>fresh_reachable\<close>; the ids come from
    the clock and \<open>Math.random\<close>, which the code does not check), the ids stay
    distinct, every pending request's captured message agrees with the log on its
    canonical part (\<open>canon_inv\<close>), and so no step changes the text, original
    language, sender or timestamp of a logged message. If moreover the clock does not
    go back (\<open>timed_reachable\<close>), the log stays sorted by timestamp.
  \<^item> \<open>Session\<close>: sessions. \<open>session s0 s\<close>: \<open>s0\<close> is reached on fresh ids and
    has no request pending (page load, or any later moment, after any number of
    sign-ins and sign-outs, once the earlier panes' requests are answered), and \<open>s\<close>
    follows from \<open>s0\<close> by fresh-id events without a sign-out. Every pending request
    holds the current message of its id, without an entry for its language
    (\<open>cur_inv\<close>), so the write-back refines the specification's set-if-absent
    \<open>updateTranslation\<close>; and every call of the translator made since \<open>s0\<close> stays
    settled (pending, or cached in the log, \<open>calls_ok\<close>), so those calls concern each
    message and language once. Every step changes the id-indexed store
    (\<open>store_of\<close>) by one of the specification's store operations (\<open>store_step\<close>:
    keep, append under a new id, set-if-absent update; written on the stored message,
    independently of the code), so cached translations are never lost. The witnesses run
    a second sign-in: English user A says hello and leaves, French user B signs in and
    B's bubble translates A's message. These properties fail when a sign-out happens
    while a request is pending (theorems \<open>translation_cache_entry_lost\<close> and
    \<open>translator_called_twice_across_mounts\<close>).
  \<^item> this theory: the specification's two scenarios (\<open>spec.md\<close> section 8) stated
    for every reachable state (a live request answered with a text, or failing: the
    bubble shows the answer or the original, and the step does not call again), the
    round trips across components (a typed nickname reappears in the chat header, a typed
    message is stored at the end of the log and shown back trimmed), and the behaviours
    where the code and the specification part ways.

  \<^emph>\<open>What the theorems show about the code.\<close> Within one mount of the chat pane,
  the \<open>isTranslating\<close> guard keeps at most one translation pending per message, and a
  resolved translation (failed or not) fills the cache with a non-empty value, so the
  bubble never asks again while the entry stays. The work terminates and makes
  progress: every answer decreases a measure, and once the provider has answered
  enough requests nothing is pending and no message needs a translation for the
  signed-in user. The translator is never called for a
  system message or a message already in the viewer's language. Within a session on
  fresh ids (from any moment with nothing pending, so a second or later sign-in too,
  without a sign-out) the code implements the specification's store (set-if-absent
  updates, a monotonic cache, one call per message and language). When a user signs out
  while a translation is pending and someone signs in again, the monotonic cache does
  not hold: a write-back replaces the whole message by the copy its
  bubble captured before the call, so two translations of one message requested from two
  sign-ins (log out and in again while the first is pending) race, and the later one
  erases the entry of the earlier (\<open>translation_cache_entry_lost\<close>); the same
  sign-out/sign-in lets the translator be called twice for one message and language
  (\<open>translator_called_twice_across_mounts\<close>). The welcome line caches a Georgian
  sentence under the joining user's language, so any user whose language is not English
  sees Georgian (\<open>welcome_seed_shown_as_translation\<close>), and for an English user the
  cache entry of the original language differs from the text, against the
  specification's invariant.

  \<^emph>\<open>Environment, bounds and what is not modelled.\<close> \<open>Date.now()\<close> and the
  random id strings are event parameters; a constructor that reads the clock twice reads
  one value. No fuel is needed: every definition is total and structural (the effect
  pass is a fold over the log, \<open>show_nat\<close> recursion is on \<open>n div 10\<close>). The
  liveness bound, \<open>2 * length (in_flight s)\<close> answers, is enough because
  \<open>drain_measure\<close> is at most that and each answer lowers it by one at least: a
  stale answer can re-open the one message it overwrote (counted twice for that reason),
  a live answer re-opens none. Answers are given to the oldest request in the liveness
  theorem; the decrease holds for an answer to any pending request.
  JavaScript numbers used here are integer millisecond timestamps and no claim depends on
  their range, so they are \<open>int\<close>. \<open>trim\<close> strips the ASCII whitespace only. Not
  modelled: the fixed markup, styling and scrolling (the views keep every text, value
  and flag that depends on the state), the time formatting of
  \<open>toLocaleTimeString\<close> (locale-dependent), \<open>console.error\<close>, the API-key
  configuration (\<open>process.env.API_KEY\<close> is read once when the module loads and is not
  observable by the code), and React's own scheduling beyond the effect-after-render rule
  described in theory \<open>App\<close>.

  \<^emph>\<open>Plan for later sessions.\<close> The rendering lemmas of \<open>bubble_view\<close> per
  branch; liveness within a session stated on the rendered pane.
\<close>

text \<open>Two runs of the model used below: a translation of one message requested from
  two sign-ins in different languages, and from two sign-ins in the same language.\<close>

abbreviation lost_update_run :: "event list" where
  "lost_update_run \<equiv>
     [Join_Type ''A'', Join_Select 1, Join_Submit ''ua'' 1000, Chat_Type ''hello'',
      Chat_Submit ''m1'' 1001, Logout,
      Join_Type ''B'', Join_Select 3, Join_Submit ''ub'' 1002, Logout,
      Join_Type ''C'', Join_Select 4, Join_Submit ''uc'' 1003,
      Translation_Done 0 (Reply_Text (Some ''bonjour''))]"

abbreviation repeat_call_run :: "event list" where
  "repeat_call_run \<equiv>
     [Join_Type ''A'', Join_Select 1, Join_Submit ''ua'' 1000, Chat_Type ''hello'',
      Chat_Submit ''m1'' 1001, Logout,
      Join_Type ''B'', Join_Select 3, Join_Submit ''ub'' 1002, Logout,
      Join_Type ''B'', Join_Select 3, Join_Submit ''ub'' 1003]"

section \<open>The specification's scenarios, for every reachable state\<close>

text \<open>
  Claim C14. Scenario 1 of the specification (section 8), in general: in any
  reachable state, when the provider answers a pending request of the mounted pane with
  a non-blank text \<open>r\<close>, every message of the log with the request's id keeps its
  text and caches the trimmed answer under the signed-in user's language; the user's
  bubble displays it, no longer needs a translation and is no longer marked translating,
  and the step calls the translator for no message with that id.
\<close>

theorem answer_shows_translation:
  assumes "app_reachable s" and "i < length (in_flight s)" and "request_live s (in_flight s ! i)"
    and "current_user s = Some u" and "js_truthy (js_trim r)"
    and "m' \<in> set (messages (app_step s (Translation_Done i (Reply_Text (Some r)))))"
    and "msg_id m' = msg_id (rq_msg (in_flight s ! i))"
  shows "msg_text m' = msg_text (rq_msg (in_flight s ! i)) \<and>
         msg_translations m' (user_language u) = Some (js_trim r) \<and>
         displayed_text m' u = js_trim r \<and> \<not> needs_translation m' u \<and>
         msg_id m' \<notin> translating (app_step s (Translation_Done i (Reply_Text (Some r)))) \<and>
         msg_id m' \<notin> (\<lambda>(m, l). msg_id m) ` set (drop (length (translator_calls s))
           (translator_calls (app_step s (Translation_Done i (Reply_Text (Some r))))))"
proof -
  have t: "translate_result (Reply_Text (Some r)) (msg_text (rq_msg (in_flight s ! i))) = js_trim r"
    using assms(5) by (simp add: translate_result_def js_simps)
  note a = answer_live_message [OF assms(1-4,6,7)]
  have m': "m' = translated_message (rq_msg (in_flight s ! i)) (user_language u) (js_trim r)"
    using a [THEN conjunct1] t by simp
  have o: "msg_original_language m' \<noteq> user_language u" and n: "\<not> needs_translation m' u"
    using a by blast+
  from m' o have "msg_text m' = msg_text (rq_msg (in_flight s ! i)) \<and>
      msg_translations m' (user_language u) = Some (js_trim r) \<and> displayed_text m' u = js_trim r"
    by (simp add: displayed_text_def js_simps js_or_def assms(5))
  with n answer_live_closes [OF assms(1-3), of "Reply_Text (Some r)"] assms(7) show ?thesis
    by simp
qed

theorem answer_shows_translation_witness:
  "app_reachable (app_run init_state viewer_switch_run) \<and> 0 < length (in_flight (app_run init_state viewer_switch_run)) \<and> request_live (app_run init_state viewer_switch_run) (in_flight (app_run init_state viewer_switch_run) ! 0) \<and>
   current_user (app_run init_state viewer_switch_run) = Some (the (current_user (app_run init_state viewer_switch_run))) \<and> js_truthy (js_trim ''bonjour'') \<and>
   (messages (app_step (app_run init_state viewer_switch_run) (Translation_Done 0 (Reply_Text (Some ''bonjour'')))) ! 1) \<in> set (messages (app_step (app_run init_state viewer_switch_run) (Translation_Done 0 (Reply_Text (Some ''bonjour''))))) \<and> msg_id (messages (app_step (app_run init_state viewer_switch_run) (Translation_Done 0 (Reply_Text (Some ''bonjour'')))) ! 1) = msg_id (rq_msg (in_flight (app_run init_state viewer_switch_run) ! 0)) \<and>
   msg_translations (messages (app_step (app_run init_state viewer_switch_run) (Translation_Done 0 (Reply_Text (Some ''bonjour'')))) ! 1) (user_language (the (current_user (app_run init_state viewer_switch_run)))) = Some (js_trim ''bonjour'') \<and>
   displayed_text (messages (app_step (app_run init_state viewer_switch_run) (Translation_Done 0 (Reply_Text (Some ''bonjour'')))) ! 1) (the (current_user (app_run init_state viewer_switch_run))) = js_trim ''bonjour'' \<and> \<not> needs_translation (messages (app_step (app_run init_state viewer_switch_run) (Translation_Done 0 (Reply_Text (Some ''bonjour'')))) ! 1) (the (current_user (app_run init_state viewer_switch_run)))"
proof -
  have h1: "app_reachable (app_run init_state viewer_switch_run)" by (rule app_reachable_run [OF app_reachable.init])
  have h2: "0 < length (in_flight (app_run init_state viewer_switch_run))" by (simp add: app_eval_defs)
  have h3: "request_live (app_run init_state viewer_switch_run) (in_flight (app_run init_state viewer_switch_run) ! 0)" by (simp add: app_eval_defs)
  have h4: "current_user (app_run init_state viewer_switch_run) = Some (the (current_user (app_run init_state viewer_switch_run)))" by (simp add: app_eval_defs)
  have h5: "js_truthy (js_trim ''bonjour'')" by (simp add: js_trim_def js_ws_def js_truthy_def)
  have h6: "(messages (app_step (app_run init_state viewer_switch_run) (Translation_Done 0 (Reply_Text (Some ''bonjour'')))) ! 1) \<in> set (messages (app_step (app_run init_state viewer_switch_run) (Translation_Done 0 (Reply_Text (Some ''bonjour'')))))" by (simp add: app_eval_defs)
  have h7: "msg_id (messages (app_step (app_run init_state viewer_switch_run) (Translation_Done 0 (Reply_Text (Some ''bonjour'')))) ! 1) = msg_id (rq_msg (in_flight (app_run init_state viewer_switch_run) ! 0))" by (simp add: app_eval_defs)
  note c = answer_shows_translation [OF h1 h2 h3 h4 h5 h6 h7]
  show ?thesis using h1 h2 h3 h4 h5 h6 h7 c by (intro conjI) simp_all
qed

text \<open>
  Claim C15. Scenario 2 of the specification (section 8), in general: in any
  reachable state, when the provider's call for a pending request of the mounted pane
  throws, every message of the log with the request's id caches its own text under the
  signed-in user's language; the user's bubble shows the original text, no longer needs
  a translation and is no longer marked translating, and the step issues no new call for
  that id: the failure is not retried.
\<close>

theorem failed_answer_shows_original:
  assumes "app_reachable s" and "i < length (in_flight s)" and "request_live s (in_flight s ! i)"
    and "current_user s = Some u"
    and "m' \<in> set (messages (app_step s (Translation_Done i Reply_Throws)))"
    and "msg_id m' = msg_id (rq_msg (in_flight s ! i))"
  shows "msg_text m' = msg_text (rq_msg (in_flight s ! i)) \<and>
         msg_translations m' (user_language u) = Some (msg_text m') \<and>
         displayed_text m' u = msg_text m' \<and> \<not> needs_translation m' u \<and>
         msg_id m' \<notin> translating (app_step s (Translation_Done i Reply_Throws)) \<and>
         msg_id m' \<notin> (\<lambda>(m, l). msg_id m) ` set (drop (length (translator_calls s))
           (translator_calls (app_step s (Translation_Done i Reply_Throws))))"
proof -
  note a = answer_live_message [OF assms(1-6)]
  have m': "m' = translated_message (rq_msg (in_flight s ! i)) (user_language u)
                   (msg_text (rq_msg (in_flight s ! i)))"
    using a [THEN conjunct1] by (simp add: translate_result_def)
  have o: "msg_original_language m' \<noteq> user_language u" and n: "\<not> needs_translation m' u"
    using a by blast+
  from m' o have "msg_text m' = msg_text (rq_msg (in_flight s ! i)) \<and>
      msg_translations m' (user_language u) = Some (msg_text m') \<and> displayed_text m' u = msg_text m'"
    by (simp add: displayed_text_def js_simps js_or_def)
  with n answer_live_closes [OF assms(1-3), of Reply_Throws] assms(6) show ?thesis
    by simp
qed

theorem failed_answer_shows_original_witness:
  "app_reachable (app_run init_state viewer_switch_run) \<and> 0 < length (in_flight (app_run init_state viewer_switch_run)) \<and> request_live (app_run init_state viewer_switch_run) (in_flight (app_run init_state viewer_switch_run) ! 0) \<and>
   current_user (app_run init_state viewer_switch_run) = Some (the (current_user (app_run init_state viewer_switch_run))) \<and>
   (messages (app_step (app_run init_state viewer_switch_run) (Translation_Done 0 Reply_Throws)) ! 1) \<in> set (messages (app_step (app_run init_state viewer_switch_run) (Translation_Done 0 Reply_Throws))) \<and> msg_id (messages (app_step (app_run init_state viewer_switch_run) (Translation_Done 0 Reply_Throws)) ! 1) = msg_id (rq_msg (in_flight (app_run init_state viewer_switch_run) ! 0)) \<and>
   msg_translations (messages (app_step (app_run init_state viewer_switch_run) (Translation_Done 0 Reply_Throws)) ! 1) (user_language (the (current_user (app_run init_state viewer_switch_run)))) = Some (msg_text (messages (app_step (app_run init_state viewer_switch_run) (Translation_Done 0 Reply_Throws)) ! 1)) \<and>
   displayed_text (messages (app_step (app_run init_state viewer_switch_run) (Translation_Done 0 Reply_Throws)) ! 1) (the (current_user (app_run init_state viewer_switch_run))) = msg_text (messages (app_step (app_run init_state viewer_switch_run) (Translation_Done 0 Reply_Throws)) ! 1) \<and> \<not> needs_translation (messages (app_step (app_run init_state viewer_switch_run) (Translation_Done 0 Reply_Throws)) ! 1) (the (current_user (app_run init_state viewer_switch_run)))"
proof -
  have h1: "app_reachable (app_run init_state viewer_switch_run)" by (rule app_reachable_run [OF app_reachable.init])
  have h2: "0 < length (in_flight (app_run init_state viewer_switch_run))" by (simp add: app_eval_defs)
  have h3: "request_live (app_run init_state viewer_switch_run) (in_flight (app_run init_state viewer_switch_run) ! 0)" by (simp add: app_eval_defs)
  have h4: "current_user (app_run init_state viewer_switch_run) = Some (the (current_user (app_run init_state viewer_switch_run)))" by (simp add: app_eval_defs)
  have h5: "(messages (app_step (app_run init_state viewer_switch_run) (Translation_Done 0 Reply_Throws)) ! 1) \<in> set (messages (app_step (app_run init_state viewer_switch_run) (Translation_Done 0 Reply_Throws)))" by (simp add: app_eval_defs)
  have h6: "msg_id (messages (app_step (app_run init_state viewer_switch_run) (Translation_Done 0 Reply_Throws)) ! 1) = msg_id (rq_msg (in_flight (app_run init_state viewer_switch_run) ! 0))" by (simp add: app_eval_defs)
  note c = failed_answer_shows_original [OF h1 h2 h3 h4 h5 h6]
  show ?thesis using h1 h2 h3 h4 h5 h6 c by (intro conjI) simp_all
qed

section \<open>Where the code departs from the specification\<close>

lemma lost_update_before:
  "msg_translations (messages (app_run init_state lost_update_run) ! 1) ''fr'' = Some ''bonjour''"
  by (simp add: app_eval_defs)

lemma lost_update_after:
  "msg_translations (messages (app_step (app_run init_state lost_update_run)
      (Translation_Done 0 (Reply_Text (Some ''hallo'')))) ! 1) ''fr'' = None"
  by (simp add: app_eval_defs)

text \<open>
  Claim C4. The translation cache of a message is not monotonic: there is a
  reachable state in which the French entry of a message is cached, and one provider
  answer later the entry is gone (the German write-back of a bubble from a later
  sign-in replaces the message by its copy taken before the French entry existed).
\<close>

theorem translation_cache_entry_lost:
  "\<exists>s e. app_reachable s \<and> msg_translations (messages s ! 1) ''fr'' = Some ''bonjour'' \<and>
         msg_id (messages (app_step s e) ! 1) = msg_id (messages s ! 1) \<and>
         msg_translations (messages (app_step s e) ! 1) ''fr'' = None"
proof (intro exI conjI)
  show "app_reachable (app_run init_state lost_update_run)"
    by (rule app_reachable_run) (rule app_reachable.init)
  show "msg_translations (messages (app_run init_state lost_update_run) ! 1) ''fr'' = Some ''bonjour''"
    by (rule lost_update_before)
  show "msg_translations (messages (app_step (app_run init_state lost_update_run)
      (Translation_Done 0 (Reply_Text (Some ''hallo'')))) ! 1) ''fr'' = None"
    by (rule lost_update_after)
  show "msg_id (messages (app_step (app_run init_state lost_update_run)
      (Translation_Done 0 (Reply_Text (Some ''hallo'')))) ! 1) =
        msg_id (messages (app_run init_state lost_update_run) ! 1)"
    by (simp add: app_eval_defs)
qed

lemma repeat_call_calls:
  "map (\<lambda>(m, l). (msg_id m, l)) (translator_calls (app_run init_state repeat_call_run)) =
     [(''msg-m1'', ''fr''), (''msg-m1'', ''fr'')]"
  by (simp add: app_eval_defs)

text \<open>
  Claim C16. The in-flight guard is per mount of the chat pane: after signing out and
  in again in the same language while a translation is pending, the translator is called
  a second time for the same message and language.
\<close>

theorem translator_called_twice_across_mounts:
  "\<exists>s. app_reachable s \<and> \<not> distinct (map (\<lambda>(m, l). (msg_id m, l)) (translator_calls s))"
proof (intro exI conjI)
  show "app_reachable (app_run init_state repeat_call_run)"
    by (rule app_reachable_run) (rule app_reachable.init)
  show "\<not> distinct (map (\<lambda>(m, l). (msg_id m, l)) (translator_calls (app_run init_state repeat_call_run)))"
    unfolding repeat_call_calls by simp
qed

text \<open>
  Claim C17. The welcome message caches the Georgian line under the joining user's
  language, so a user whose language is not English is shown Georgian for it.
\<close>

theorem welcome_seed_shown_as_translation:
  assumes "user_language u \<noteq> ''en''"
  shows "displayed_text (welcome_message u now) u = user_nickname u @ ka_joined_suffix"
  using assms ka_joined_suffix_ne
  by (simp add: displayed_text_def welcome_message_def js_simps js_truthy_def)

theorem welcome_seed_shown_as_translation_witness:
  "user_language \<lparr>user_id = ''u1'', user_nickname = ''Ana'', user_language = ''fr'',
      user_language_label = ''Fr''\<rparr> \<noteq> ''en'' \<and>
   displayed_text (welcome_message \<lparr>user_id = ''u1'', user_nickname = ''Ana'', user_language = ''fr'',
      user_language_label = ''Fr''\<rparr> 0) \<lparr>user_id = ''u1'', user_nickname = ''Ana'',
      user_language = ''fr'', user_language_label = ''Fr''\<rparr> =
   user_nickname \<lparr>user_id = ''u1'', user_nickname = ''Ana'', user_language = ''fr'',
      user_language_label = ''Fr''\<rparr> @ ka_joined_suffix"
proof -
  have h: "user_language \<lparr>user_id = ''u1'', user_nickname = ''Ana'', user_language = ''fr'',
      user_language_label = ''Fr''\<rparr> \<noteq> ''en''" by simp
  show ?thesis using h welcome_seed_shown_as_translation [OF h] by (rule conjI)
qed

section \<open>Round trips across the components\<close>

text \<open>
  Claim C28. Joining round trip: from the join form, submitting a nickname that is not
  blank mounts the chat pane for a user whose header shows the trimmed nickname and the
  label of the selected language, with an empty input field, and the log gains the
  welcome line at its end.
\<close>

theorem join_round_trip:
  assumes "current_user s = None" and "js_truthy (js_trim (join_nickname s))"
  shows "app_view (app_step s (Join_Submit rand now)) =
           Chat_Screen (chat_view
             \<lparr>user_id = rand, user_nickname = js_trim (join_nickname s),
              user_language = lo_code (join_lang s), user_language_label = lo_label (join_lang s)\<rparr>
             (messages s @ [welcome_message
                \<lparr>user_id = rand, user_nickname = js_trim (join_nickname s),
                 user_language = lo_code (join_lang s), user_language_label = lo_label (join_lang s)\<rparr> now])
             (translating (app_step s (Join_Submit rand now))) [])"
  using assms
  by (simp add: app_step_def app_view_def join_submit_def mount_chat_room_def handle_join_def
      append_message_def)

theorem join_round_trip_witness:
  "current_user (app_step init_state (Join_Type '' Ana '')) = None \<and>
   js_truthy (js_trim (join_nickname (app_step init_state (Join_Type '' Ana '')))) \<and>
   cv_nickname (case app_view (app_step (app_step init_state (Join_Type '' Ana '')) (Join_Submit ''r1'' 5))
      of Chat_Screen v \<Rightarrow> v) = ''Ana''"
proof -
  have h1: "current_user (app_step init_state (Join_Type '' Ana '')) = None"
    by (simp add: app_eval_defs)
  have h2: "js_truthy (js_trim (join_nickname (app_step init_state (Join_Type '' Ana ''))))"
    by (simp add: app_eval_defs)
  have h3: "join_nickname (app_step init_state (Join_Type '' Ana '')) = '' Ana ''"
    by (simp add: app_eval_defs)
  show ?thesis
    using h1 h2 join_round_trip [OF h1 h2, of "''r1''" 5]
    by (simp add: chat_view_def h3 js_trim_def js_ws_def)
qed

text \<open>
  Claim C29. Sending round trip: submitting a non-blank input appends one message to
  the end of the log, clears the input field, and the new message shows every viewer,
  whatever their language, exactly the trimmed text that was typed (until a
  translation for that viewer's language is cached).
\<close>

theorem send_round_trip:
  assumes "current_user s = Some u" and "js_truthy (js_trim (input_text s))"
  shows "messages (app_step s (Chat_Submit rand now)) =
           messages s @ [new_message u (js_trim (input_text s)) rand now] \<and>
         input_text (app_step s (Chat_Submit rand now)) = [] \<and>
         displayed_text (last (messages (app_step s (Chat_Submit rand now)))) v = js_trim (input_text s)"
  using assms
  by (simp add: app_step_def chat_submit_def handle_send_message_def append_message_def
      displayed_text_def new_message_def js_simps)

theorem send_round_trip_witness:
  "current_user (app_run init_state [Join_Type ''A'', Join_Submit ''ua'' 1000, Chat_Type '' hi '']) =
     Some (the (current_user (app_run init_state [Join_Type ''A'', Join_Submit ''ua'' 1000, Chat_Type '' hi '']))) \<and>
   js_truthy (js_trim (input_text (app_run init_state [Join_Type ''A'', Join_Submit ''ua'' 1000, Chat_Type '' hi '']))) \<and>
   displayed_text (last (messages (app_step (app_run init_state [Join_Type ''A'', Join_Submit ''ua'' 1000, Chat_Type '' hi ''])
      (Chat_Submit ''m1'' 1001)))) \<lparr>user_id = ''ub'', user_nickname = ''B'', user_language = ''fr'',
      user_language_label = ''Fr''\<rparr> =
     js_trim (input_text (app_run init_state [Join_Type ''A'', Join_Submit ''ua'' 1000, Chat_Type '' hi '']))"
proof -
  have h1: "current_user (app_run init_state [Join_Type ''A'', Join_Submit ''ua'' 1000, Chat_Type '' hi '']) =
     Some (the (current_user (app_run init_state [Join_Type ''A'', Join_Submit ''ua'' 1000, Chat_Type '' hi ''])))"
    by (simp add: app_eval_defs)
  have h2: "js_truthy (js_trim (input_text (app_run init_state [Join_Type ''A'', Join_Submit ''ua'' 1000, Chat_Type '' hi ''])))"
    by (simp add: app_eval_defs)
  show ?thesis
    by (rule conjI [OF h1 conjI [OF h2 send_round_trip [OF h1 h2, THEN conjunct2, THEN conjunct2]]])
qed

end
